theory Spec2Isabelle
  imports Complex_Main "HOL-Library.AList"
begin

section \<open>Exceptions\<close>

text \<open>
  Every exception the codec can raise is a value. \<open>ValueError\<close> carries the message of the
  \<^verbatim>\<open>raise\<close>, which tells the preamble mismatch from the unset-value error.
  \<open>ReadError\<close> and \<open>CreationError\<close> are the two exceptions of the bit-string library.
\<close>

datatype error =
    ValueError string
  | NotImplementedError
  | ReadError
  | CreationError
  | ZeroDivisionError
  | OverflowError
  | KeyError string

definition bindE :: "error + 'a \<Rightarrow> ('a \<Rightarrow> error + 'b) \<Rightarrow> error + 'b" where
  "bindE m f = (case m of Inl e \<Rightarrow> Inl e | Inr x \<Rightarrow> f x)"

section \<open>The bit-string library, as far as the codec uses it\<close>

text \<open>
  A bit string is a list of booleans in storage order (index 0 first).
  \<open>bin_be n v\<close> is the \<open>n\<close>-bit big-endian representation of \<open>v\<close>, which is what
  \<^verbatim>\<open>Bits(uint=v, length=n)\<close> stores; \<open>uint_be\<close> reads a bit list as a big-endian
  unsigned number, which is what \<^verbatim>\<open>int.from_bytes(..., signed=False)\<close> returns on
  the bytes of a bit string.
\<close>

fun bin_be :: "nat \<Rightarrow> nat \<Rightarrow> bool list" where
  "bin_be 0 v = []"
| "bin_be (Suc n) v = bin_be n (v div 2) @ [odd v]"

definition uint_be :: "bool list \<Rightarrow> nat" where
  "uint_be bs = foldl (\<lambda>a b. 2 * a + (if b then 1 else 0)) 0 bs"

text \<open>
  Python numbers. A \<^verbatim>\<open>float\<close> is a binary64 number and is carried as the real number
  it denotes; a decimal literal of the source stands for the binary64 number nearest to it.
  The arithmetic on floats rounds, and \<^verbatim>\<open>math.log\<close> and \<^verbatim>\<open>**\<close> come from
  the C library of the platform, so the arithmetic is a parameter of the model: the record
  \<open>float_ops\<close> holds the operations the codec uses. \<open>fpow\<close> is \<^verbatim>\<open>x ** n\<close> for
  an integer \<open>n \<ge> 0\<close>, which raises \<^verbatim>\<open>OverflowError\<close> (\<open>None\<close>) when the power
  is out of range; \<open>fdiv\<close> and \<open>flog\<close> are called on a divisor other than zero and on
  a positive argument only, the callers raise before. No theorem assumes anything of the
  operations but what it states.
\<close>

record float_ops =
  fadd :: "real \<Rightarrow> real \<Rightarrow> real"
  fsub :: "real \<Rightarrow> real \<Rightarrow> real"
  fmul :: "real \<Rightarrow> real \<Rightarrow> real"
  fdiv :: "real \<Rightarrow> real \<Rightarrow> real"
  fpow :: "real \<Rightarrow> nat \<Rightarrow> real option"
  flog :: "real \<Rightarrow> real"

text \<open>
  Arithmetic without rounding, to run the model on sample inputs. Binary64 arithmetic agrees
  with it wherever the operands and the exact result are binary64 numbers, and on the
  identities \<^verbatim>\<open>x ** 0 == 1.0\<close>, \<^verbatim>\<open>x * 1.0 == x\<close>, \<^verbatim>\<open>x / x == 1.0\<close>,
  \<^verbatim>\<open>math.log(1.0) == 0.0\<close> and \<^verbatim>\<open>0.0 / x == 0.0\<close>.
\<close>

definition exact_arith :: float_ops where
  "exact_arith =
     \<lparr>fadd = (\<lambda>x y. x + y), fsub = (\<lambda>x y. x - y), fmul = (\<lambda>x y. x * y),
      fdiv = (\<lambda>x y. x / y), fpow = (\<lambda>x n. Some (x ^ n)), flog = ln\<rparr>"

text \<open>
  \<^verbatim>\<open>/\<close> and \<^verbatim>\<open>math.log\<close> always return a float, and the library's
  unsigned-integer initialiser applies \<^verbatim>\<open>int()\<close> to its argument, which truncates a
  float toward zero.
\<close>

datatype pynum = PyInt int | PyFloat real

fun py_int :: "pynum \<Rightarrow> int" where
  "py_int (PyInt i) = i"
| "py_int (PyFloat x) = (if 0 \<le> x then \<lfloor>x\<rfloor> else \<lceil>x\<rceil>)"

definition Bits_uint :: "pynum \<Rightarrow> int \<Rightarrow> error + bool list" where
  "Bits_uint uint l =
     (if l \<le> 0 then Inl CreationError
      else let i = py_int uint in
        if i \<ge> 2 ^ nat l \<or> i < 0 then Inl CreationError
        else Inr (bin_be (nat l) (nat i)))"

definition tobytes :: "bool list \<Rightarrow> bool list" where
  "tobytes bs = bs @ replicate ((8 - length bs mod 8) mod 8) False"

definition int_from_bytes :: "bool list \<Rightarrow> nat" where
  "int_from_bytes bs = uint_be (tobytes bs)"

text \<open>The read cursor of a \<^verbatim>\<open>BitStream\<close>: the stored bits and the position.\<close>

record BitStream =
  bits :: "bool list"
  pos :: nat

definition read :: "int \<Rightarrow> BitStream \<Rightarrow> error + (bool list \<times> BitStream)" where
  "read n s =
     (if n < 0 then Inl (ValueError ''Cannot read negative amount.'')
      else if nat n > length (bits s) - pos s then Inl ReadError
      else Inr (take (nat n) (drop (pos s) (bits s)), s\<lparr>pos := pos s + nat n\<rparr>))"

section \<open>Field elements (teds\_element.py)\<close>

text \<open>
  A \<^verbatim>\<open>datetime\<close> is its proleptic Gregorian day number together with the
  microseconds elapsed in that day; 1998-01-01 is day 729390 and 9999-12-31 is day 3652059.
\<close>

datatype datetime = Datetime (ordinal: int) (micros: nat)

definition epoch :: datetime where
  "epoch = Datetime 729390 0"

definition datetime_add_days :: "datetime \<Rightarrow> nat \<Rightarrow> error + datetime" where
  "datetime_add_days d n =
     (if ordinal d + int n > 3652059 then Inl OverflowError
      else Inr (Datetime (ordinal d + int n) (micros d)))"

definition timedelta_days :: "datetime \<Rightarrow> datetime \<Rightarrow> int" where
  "timedelta_days a b =
     (if micros a \<ge> micros b then ordinal a - ordinal b else ordinal a - ordinal b - 1)"

text \<open>
  One constructor per element class; the first argument is \<open>len\<close>, the last the value
  \<open>val\<close> (\<open>None\<close> while unset).
\<close>

datatype teds_element =
    UnIntTedsElement int "int option"
  | Chr5TedsElement int "string option"
  | AsciiTedsElement int "string option"
  | DateTedsElement int "datetime option"
  | SingleTedsElement int
  | ConResTedsElement int real real "real option"
  | ConRelResTedsElement int real real "real option"
  | EnumTedsElement int "int list" "int option"
  | ConstantTedsElement int "string option"

fun len :: "teds_element \<Rightarrow> int" where
  "len (UnIntTedsElement l v) = l"
| "len (Chr5TedsElement l v) = l"
| "len (AsciiTedsElement l v) = l"
| "len (DateTedsElement l v) = l"
| "len (SingleTedsElement l) = l"
| "len (ConResTedsElement l start step v) = l"
| "len (ConRelResTedsElement l start step v) = l"
| "len (EnumTedsElement l opts v) = l"
| "len (ConstantTedsElement l v) = l"

definition zero_pad_bitstream :: "bool list \<Rightarrow> bool list" where
  "zero_pad_bitstream bitstream =
     (let target_len = ((length bitstream + 7) div 8) * 8;
          pad = target_len - length bitstream
      in bitstream @ replicate pad False)"

definition reverse_bitstream :: "bool list \<Rightarrow> bool list" where
  "reverse_bitstream bitstream = rev bitstream"

definition to_bitstream :: "int \<Rightarrow> pynum \<Rightarrow> error + bool list" where
  "to_bitstream l int_val = bindE (Bits_uint int_val l) (\<lambda>b. Inr (reverse_bitstream b))"

text \<open>
  The loop of \<^verbatim>\<open>Chr5TedsElement.from_bits\<close> runs once per index of
  \<^verbatim>\<open>range(0, len(bitstream), 5)\<close> and reads five bits each time; a read past the
  end raises. The first argument counts the iterations left.
\<close>

fun Chr5_loop :: "nat \<Rightarrow> bool list \<Rightarrow> string \<Rightarrow> error + string" where
  "Chr5_loop 0 bs val = Inr val"
| "Chr5_loop (Suc k) bs val =
     (if length bs < 5 then Inl ReadError
      else let cur_val = take 5 bs;
               cur_char = reverse_bitstream (zero_pad_bitstream cur_val)
           in Chr5_loop k (drop 5 bs) (val @ [char_of (96 + int_from_bytes cur_char)]))"

definition Chr5_from_bits :: "bool list \<Rightarrow> error + string" where
  "Chr5_from_bits bitstream = Chr5_loop ((length bitstream + 4) div 5) bitstream []"

text \<open>
  The loop of \<^verbatim>\<open>AsciiTedsElement.from_bits\<close> runs once per index of
  \<^verbatim>\<open>range(0, len(bitstream), 7)\<close> and reads seven bits only when seven are left.
\<close>

fun Ascii_loop :: "nat \<Rightarrow> bool list \<Rightarrow> string \<Rightarrow> string" where
  "Ascii_loop 0 bs val = val"
| "Ascii_loop (Suc k) bs val =
     (if length bs \<ge> 7
      then let cur_val = take 7 bs;
               cur_char = reverse_bitstream (zero_pad_bitstream cur_val)
           in Ascii_loop k (drop 7 bs) (val @ [char_of (int_from_bytes cur_char)])
      else Ascii_loop k bs val)"

definition Ascii_from_bits :: "bool list \<Rightarrow> string" where
  "Ascii_from_bits bitstream = Ascii_loop ((length bitstream + 6) div 7) bitstream []"

fun from_bits :: "float_ops \<Rightarrow> teds_element \<Rightarrow> bool list \<Rightarrow> error + teds_element" where
  "from_bits fo (UnIntTedsElement l v) bitstream =
     Inr (UnIntTedsElement l
       (Some (int (int_from_bytes (reverse_bitstream (zero_pad_bitstream bitstream))))))"
| "from_bits fo (Chr5TedsElement l v) bitstream =
     bindE (Chr5_from_bits bitstream) (\<lambda>s. Inr (Chr5TedsElement l (Some s)))"
| "from_bits fo (AsciiTedsElement l v) bitstream =
     Inr (AsciiTedsElement l (Some (Ascii_from_bits bitstream)))"
| "from_bits fo (DateTedsElement l v) bitstream =
     bindE (datetime_add_days epoch
              (int_from_bytes (reverse_bitstream (zero_pad_bitstream bitstream))))
       (\<lambda>d. Inr (DateTedsElement l (Some d)))"
| "from_bits fo (SingleTedsElement l) bitstream = Inl NotImplementedError"
| "from_bits fo (ConResTedsElement l start step v) bitstream =
     Inr (ConResTedsElement l start step
       (Some (fadd fo start
          (fmul fo (real (int_from_bytes (reverse_bitstream (zero_pad_bitstream bitstream))))
             step))))"
| "from_bits fo (ConRelResTedsElement l start step v) bitstream =
     (case fpow fo (fadd fo 1 (fmul fo 2 step))
             (int_from_bytes (reverse_bitstream (zero_pad_bitstream bitstream))) of
        None \<Rightarrow> Inl OverflowError
      | Some pw \<Rightarrow> Inr (ConRelResTedsElement l start step (Some (fmul fo start pw))))"
| "from_bits fo (EnumTedsElement l opts v) bitstream = Inl NotImplementedError"
| "from_bits fo (ConstantTedsElement l v) bitstream = Inr (ConstantTedsElement l v)"

text \<open>
  \<^verbatim>\<open>bin(n)[2:]\<close>: the binary digits of \<open>n\<close> without leading zeros (one digit for 0),
  and \<^verbatim>\<open>zfill\<close>, which pads on the left. The digit characters are booleans here.
\<close>

fun bin_digits :: "nat \<Rightarrow> bool list" where
  "bin_digits n = (if n < 2 then [odd n] else bin_digits (n div 2) @ [odd n])"

declare bin_digits.simps [simp del]

definition zfill :: "nat \<Rightarrow> bool list \<Rightarrow> bool list" where
  "zfill w s = replicate (w - length s) False @ s"

definition Chr5_to_bits :: "string \<Rightarrow> bool list" where
  "Chr5_to_bits s =
     concat (map (\<lambda>c. let char_val = bin_digits (of_char c);
                           z = zfill 5 char_val
                       in rev (drop (length z - 5) z)) s)"

definition Ascii_to_bits :: "string \<Rightarrow> bool list" where
  "Ascii_to_bits s =
     concat (map (\<lambda>c. let char_val = bin_digits (of_char c) in rev (zfill 7 char_val)) s)"

definition unset :: "error + 'a" where
  "unset = Inl (ValueError ''Cannot convert None to bits'')"

text \<open>
  \<^verbatim>\<open>ConstantTedsElement.to_bits\<close> returns nothing and the writer never calls it; it is
  the empty bit string here. The scaled kinds pass the quotient, a float, to
  \<open>to_bitstream\<close> as it is: nothing rounds it to the nearest integer.
\<close>

fun to_bits :: "float_ops \<Rightarrow> teds_element \<Rightarrow> error + bool list" where
  "to_bits fo (UnIntTedsElement l None) = unset"
| "to_bits fo (UnIntTedsElement l (Some v)) = to_bitstream l (PyInt v)"
| "to_bits fo (Chr5TedsElement l None) = unset"
| "to_bits fo (Chr5TedsElement l (Some s)) = Inr (Chr5_to_bits s)"
| "to_bits fo (AsciiTedsElement l None) = unset"
| "to_bits fo (AsciiTedsElement l (Some s)) = Inr (Ascii_to_bits s)"
| "to_bits fo (DateTedsElement l None) = unset"
| "to_bits fo (DateTedsElement l (Some d)) = to_bitstream l (PyInt (timedelta_days d epoch))"
| "to_bits fo (SingleTedsElement l) = Inl NotImplementedError"
| "to_bits fo (ConResTedsElement l start step None) = unset"
| "to_bits fo (ConResTedsElement l start step (Some v)) =
     (if step = 0 then Inl ZeroDivisionError
      else let int_val = fdiv fo (fsub fo v start) step in to_bitstream l (PyFloat int_val))"
| "to_bits fo (ConRelResTedsElement l start step None) = unset"
| "to_bits fo (ConRelResTedsElement l start step (Some v)) =
     (if start = 0 then Inl ZeroDivisionError
      else if fdiv fo v start \<le> 0 then Inl (ValueError ''math domain error'')
      else if fadd fo 1 (fmul fo 2 step) \<le> 0 then Inl (ValueError ''math domain error'')
      else if flog fo (fadd fo 1 (fmul fo 2 step)) = 0 then Inl ZeroDivisionError
      else let int_val = fdiv fo (flog fo (fdiv fo v start))
                           (flog fo (fadd fo 1 (fmul fo 2 step)))
           in to_bitstream l (PyFloat int_val))"
| "to_bits fo (EnumTedsElement l opts v) = Inl NotImplementedError"
| "to_bits fo (ConstantTedsElement l v) = Inr []"

fun is_Constant :: "teds_element \<Rightarrow> bool" where
  "is_Constant (ConstantTedsElement l v) = True"
| "is_Constant e = False"

text \<open>The value of an element when it is an integer, for the comparisons of the templates.\<close>

fun val_int :: "teds_element \<Rightarrow> int option" where
  "val_int (UnIntTedsElement l v) = v"
| "val_int e = None"

section \<open>The document and its templates (teds.py)\<close>

text \<open>
  \<^verbatim>\<open>ni_preamble\<close> is the hexadecimal string of \<open>0xDA6E0CCCBA\<close>; as a bit string it is
  the 40 bits of that number, most significant first.
\<close>

definition ni_preamble :: "bool list" where
  "ni_preamble = bin_be 40 0xDA6E0CCCBA"

text \<open>
  A Python \<^verbatim>\<open>dict\<close> keeps its keys in insertion order: it is an association list, and
  \<^verbatim>\<open>update\<close> replaces the value of a key that is present and appends a new key.
\<close>

type_synonym teds_dict = "(string \<times> teds_element) list"

definition dict_update :: "teds_dict \<Rightarrow> teds_dict \<Rightarrow> teds_dict" where
  "dict_update d td = foldl (\<lambda>acc kv. AList.update (fst kv) (snd kv) acc) d td"

definition getitem :: "teds_dict \<Rightarrow> string \<Rightarrow> error + teds_element" where
  "getitem d key = (case map_of d key of None \<Rightarrow> Inl (KeyError key) | Some e \<Rightarrow> Inr e)"

record StandardTeds =
  teds :: teds_dict
  bitstream :: BitStream

text \<open>
  \<^verbatim>\<open>process\<close>: every element of the dictionary reads its bits (all that is left when
  its length is \<open>-1\<close>) and decodes them; the decoded dictionary is merged into the
  document once the loop is over.
\<close>

fun process_loop :: "float_ops \<Rightarrow> teds_dict \<Rightarrow> BitStream \<Rightarrow> error + (teds_dict \<times> BitStream)" where
  "process_loop fo [] s = Inr ([], s)"
| "process_loop fo ((key, e) # td) s =
     bindE (if len e = -1 then read (int (length (bits s)) - int (pos s)) s
            else read (len e) s)
       (\<lambda>(b, s'). bindE (from_bits fo e b)
          (\<lambda>e'. bindE (process_loop fo td s')
             (\<lambda>(td', s''). Inr ((key, e') # td', s''))))"

definition process :: "float_ops \<Rightarrow> teds_dict \<Rightarrow> StandardTeds \<Rightarrow> error + StandardTeds" where
  "process fo teds_dict self =
     bindE (process_loop fo teds_dict (bitstream self))
       (\<lambda>(td', s'). Inr \<lparr>teds = dict_update (teds self) td', bitstream = s'\<rparr>)"

definition end_template :: "float_ops \<Rightarrow> StandardTeds \<Rightarrow> error + StandardTeds" where
  "end_template fo self =
     process fo
       [(''calibration_date'', DateTedsElement 16 None),
        (''calibration_initals'', Chr5TedsElement 15 (Some [])),
        (''calibration_period'', UnIntTedsElement 12 None),
        (''measurement_location_id'', UnIntTedsElement 11 None),
        (''end_selector'', UnIntTedsElement 2 None),
        (''extended_end_selector'', UnIntTedsElement 1 None),
        (''user_data'', AsciiTedsElement (-1) (Some []))] self"

definition thermocouple_template :: "float_ops \<Rightarrow> StandardTeds \<Rightarrow> error + StandardTeds" where
  "thermocouple_template fo self =
     process fo
       [(''elec_sig_type'', ConstantTedsElement 0 (Some ''Voltage Sensor'')),
        (''minimum_temperature'', ConResTedsElement 11 (-273) 1 None),
        (''maximum_temperature'', ConResTedsElement 11 (-273) 1 None),
        (''minimum_electrical_output'', ConResTedsElement 7 (-0.025) 0.001 None),
        (''maximum_electrical_output'', ConResTedsElement 7 (-0.025) 0.001 None),
        (''mapping_method'', ConstantTedsElement 0 (Some ''Voltage Sensor'')),
        (''thermocouple_type'', UnIntTedsElement 4 None),
        (''cjc_required_or_compensated'', UnIntTedsElement 1 None),
        (''thermocouple_resistance'', ConRelResTedsElement 12 1 1 None),
        (''sensor_response_time'', ConRelResTedsElement 6 0.000001 1 None)] self"

definition accelerometer_no_ext_template :: "float_ops \<Rightarrow> StandardTeds \<Rightarrow> error + StandardTeds" where
  "accelerometer_no_ext_template fo self =
     process fo
       [(''sens_ref'', ConRelResTedsElement 16 0.0000005 0.00015 None),
        (''tf_hp_s'', ConRelResTedsElement 8 0.005 0.03 None)] self"

definition force_no_ext_template :: "StandardTeds \<Rightarrow> error + StandardTeds" where
  "force_no_ext_template self = Inl NotImplementedError"

definition accelerometer_ext_template :: "float_ops \<Rightarrow> StandardTeds \<Rightarrow> error + StandardTeds" where
  "accelerometer_ext_template fo self =
     process fo
       [(''passive'', ConstantTedsElement 0 (Some ''0'')),
        (''passive_ctrl_function_mask'', ConstantTedsElement 0 (Some ''0b11'')),
        (''passive_read_write'', ConstantTedsElement 0 (Some ''3'')),
        (''passive_function_type'', ConstantTedsElement 0 (Some ''0'')),
        (''passive_function'', ConstantTedsElement 0 (Some ''xx,00'')),
        (''sens_initialize'', ConstantTedsElement 0 (Some ''0'')),
        (''sens_ctrl_function_mask'', ConstantTedsElement 0 (Some ''0'')),
        (''sens_read_write'', ConstantTedsElement 0 (Some ''3'')),
        (''sens_function_type'', ConstantTedsElement 0 (Some ''1'')),
        (''sens_function_10'', ConstantTedsElement 0 (Some ''10'')),
        (''sens_function_01'', ConstantTedsElement 0 (Some ''10'')),
        (''default_fr'', UnIntTedsElement 2 None),
        (''multiplexer_capable'', UnIntTedsElement 1 None),
        (''sens_ref_01'', ConRelResTedsElement 16 0.0000005 1 None),
        (''sens_ref_10'', ConRelResTedsElement 16 0.0000005 1 None),
        (''tf_hp_s_01'', ConRelResTedsElement 8 0.005 1 None),
        (''tf_hp_s_10'', ConRelResTedsElement 8 0.005 1 None)] self"

definition force_ext_template :: "StandardTeds \<Rightarrow> error + StandardTeds" where
  "force_ext_template self = Inl NotImplementedError"

definition transfer_function_template :: "float_ops \<Rightarrow> StandardTeds \<Rightarrow> error + StandardTeds" where
  "transfer_function_template fo self =
     process fo
       [(''tf_sp'', ConRelResTedsElement 7 10 0.05 None),
        (''tf_kpr'', ConRelResTedsElement 9 100 0.01 None),
        (''tf_kpq'', ConRelResTedsElement 9 0.4 0.01 None),
        (''tf_sl'', ConResTedsElement 7 (-6.3) 0.1 None),
        (''temp_coef'', ConResTedsElement 6 (-0.8) 0.025 None)] self"

text \<open>The branch on the two selectors, in the order of the \<^verbatim>\<open>if\<close>/\<^verbatim>\<open>elif\<close> chain.\<close>

definition accelerometer_force_branch :: "float_ops \<Rightarrow> StandardTeds \<Rightarrow> error + StandardTeds" where
  "accelerometer_force_branch fo self =
     bindE (getitem (teds self) ''acceleration_force'') (\<lambda>af.
     bindE (getitem (teds self) ''extended_functionality'') (\<lambda>ef.
       if val_int af = Some 0 \<and> val_int ef = Some 0 then accelerometer_no_ext_template fo self
       else if val_int af = Some 1 \<and> val_int ef = Some 0 then force_no_ext_template self
       else if val_int af = Some 0 \<and> val_int ef = Some 1 then accelerometer_ext_template fo self
       else if val_int af = Some 1 \<and> val_int ef = Some 1 then force_ext_template self
       else Inl (ValueError [])))"

definition accelerometer_force_template :: "float_ops \<Rightarrow> StandardTeds \<Rightarrow> error + StandardTeds" where
  "accelerometer_force_template fo self =
     bindE (process fo
              [(''acceleration_force'', UnIntTedsElement 1 None),
               (''extended_functionality'', UnIntTedsElement 1 None)] self) (\<lambda>self.
     bindE (accelerometer_force_branch fo self) (\<lambda>self.
     bindE (process fo
              [(''direction'', UnIntTedsElement 2 None),
               (''transducer_weight'', ConRelResTedsElement 6 0.1 0.1 None),
               (''elec_sig_type'', ConstantTedsElement 0 (Some ''Voltage Sensor'')),
               (''map_method'', ConstantTedsElement 0 (Some ''Linear'')),
               (''ACDCCoupling'', ConstantTedsElement 0 (Some ''AC'')),
               (''sign'', UnIntTedsElement 1 None),
               (''transfer_function'', UnIntTedsElement 1 None)] self) (\<lambda>self.
     bindE (getitem (teds self) ''transfer_function'') (\<lambda>tf.
     bindE (if val_int tf = Some 1 then transfer_function_template fo self else Inr self) (\<lambda>self.
       process fo
         [(''ref_req'', ConRelResTedsElement 8 0.35 0.0175 None),
          (''ref_temp'', ConResTedsElement 5 15 0.5 None)] self)))))"

text \<open>
  \<^verbatim>\<open>load_template\<close> matches the template id against 25 and 36 and has no other case:
  any other id falls through the \<^verbatim>\<open>match\<close> and the document is left as it is.
\<close>

definition load_template :: "float_ops \<Rightarrow> int option \<Rightarrow> StandardTeds \<Rightarrow> error + StandardTeds" where
  "load_template fo template_id self =
     (if template_id = Some 25 then accelerometer_force_template fo self
      else if template_id = Some 36 then thermocouple_template fo self
      else Inr self)"

text \<open>
  \<^verbatim>\<open>check_basic_teds\<close> looks the version number up and prints a notice; the document
  and the cursor are left as they are.
\<close>

definition check_basic_teds :: "StandardTeds \<Rightarrow> error + StandardTeds" where
  "check_basic_teds self = bindE (getitem (teds self) ''version_number'') (\<lambda>_. Inr self)"

text \<open>The constructor: it decodes a bit stream, with or without the preamble.\<close>

definition StandardTeds_init :: "float_ops \<Rightarrow> BitStream \<Rightarrow> bool \<Rightarrow> error + StandardTeds" where
  "StandardTeds_init fo bitstream0 has_preamble =
     bindE (if has_preamble
            then bindE (read 40 bitstream0) (\<lambda>(preamble, s).
                   if preamble \<noteq> ni_preamble
                   then Inl (ValueError ''Preamble does not match the default'')
                   else Inr s)
            else Inr bitstream0) (\<lambda>s.
     bindE (process fo
              [(''manufacturer_id'', UnIntTedsElement 14 None),
               (''model_number'', UnIntTedsElement 15 None),
               (''version_letter'', UnIntTedsElement 5 None),
               (''version_number'', UnIntTedsElement 6 None),
               (''serial_number'', UnIntTedsElement 24 None),
               (''start_selector'', UnIntTedsElement 2 None),
               (''template_id'', UnIntTedsElement 8 None)]
              \<lparr>teds = [], bitstream = s\<rparr>) (\<lambda>self.
     bindE (check_basic_teds self) (\<lambda>self.
     bindE (getitem (teds self) ''template_id'') (\<lambda>tid.
     bindE (load_template fo (val_int tid) self) (\<lambda>self.
       end_template fo self)))))"

text \<open>
  \<^verbatim>\<open>write_teds_to_file\<close>: the output starts with the preamble, every element that is
  not a constant appends its bits in the order of the document, and the file holds one byte
  (0 or 1) per bit.
\<close>

fun write_loop :: "float_ops \<Rightarrow> teds_dict \<Rightarrow> bool list \<Rightarrow> error + bool list" where
  "write_loop fo [] out = Inr out"
| "write_loop fo ((key, e) # d) out =
     (if is_Constant e then write_loop fo d out
      else bindE (to_bits fo e) (\<lambda>b. write_loop fo d (out @ b)))"

definition file_bytes :: "bool list \<Rightarrow> nat list" where
  "file_bytes out = map (\<lambda>b. if b then 1 else 0) out"

definition write_teds_to_file :: "float_ops \<Rightarrow> teds_dict \<Rightarrow> error + nat list" where
  "write_teds_to_file fo d = bindE (write_loop fo d ni_preamble) (\<lambda>out. Inr (file_bytes out))"

definition write_to_file :: "float_ops \<Rightarrow> StandardTeds \<Rightarrow> error + nat list" where
  "write_to_file fo self = write_teds_to_file fo (teds self)"

section \<open>Auxiliary notions for the statements\<close>

text \<open>
  Decoding a whole buffer from its first bit and writing the document back:
  \<^verbatim>\<open>StandardTeds(bitstream, has_preamble).write_to_file(...)\<close>.
\<close>

definition decode :: "float_ops \<Rightarrow> bool list \<Rightarrow> bool \<Rightarrow> error + StandardTeds" where
  "decode fo buf has_preamble = StandardTeds_init fo \<lparr>bits = buf, pos = 0\<rparr> has_preamble"

definition decode_encode :: "float_ops \<Rightarrow> bool list \<Rightarrow> bool \<Rightarrow> error + nat list" where
  "decode_encode fo buf has_preamble = bindE (decode fo buf has_preamble) (write_to_file fo)"

text \<open>
  The constructor up to the trailer: the preamble, the header, the version check and the
  template. The constructor is this followed by \<open>end_template\<close>.
\<close>

definition before_trailer :: "float_ops \<Rightarrow> BitStream \<Rightarrow> bool \<Rightarrow> error + StandardTeds" where
  "before_trailer fo bitstream0 has_preamble =
     bindE (if has_preamble
            then bindE (read 40 bitstream0) (\<lambda>(preamble, s).
                   if preamble \<noteq> ni_preamble
                   then Inl (ValueError ''Preamble does not match the default'')
                   else Inr s)
            else Inr bitstream0) (\<lambda>s.
     bindE (process fo
              [(''manufacturer_id'', UnIntTedsElement 14 None),
               (''model_number'', UnIntTedsElement 15 None),
               (''version_letter'', UnIntTedsElement 5 None),
               (''version_number'', UnIntTedsElement 6 None),
               (''serial_number'', UnIntTedsElement 24 None),
               (''start_selector'', UnIntTedsElement 2 None),
               (''template_id'', UnIntTedsElement 8 None)]
              \<lparr>teds = [], bitstream = s\<rparr>) (\<lambda>self.
     bindE (check_basic_teds self) (\<lambda>self.
     bindE (getitem (teds self) ''template_id'') (\<lambda>tid.
       load_template fo (val_int tid) self))))"

text \<open>
  A document that holds the fields named \<open>ks\<close>, decoded from the bits \<open>p\<close> to \<open>q\<close> of
  the buffer, which its elements encode back.
\<close>

definition decoded_upto :: "float_ops \<Rightarrow> bool list \<Rightarrow> nat \<Rightarrow> nat \<Rightarrow> string list \<Rightarrow> StandardTeds \<Rightarrow> bool" where
  "decoded_upto fo buf p q ks self \<longleftrightarrow>
     bitstream self = \<lparr>bits = buf, pos = q\<rparr> \<and> p \<le> q \<and> q \<le> length buf
     \<and> map fst (teds self) = ks
     \<and> (\<forall>out. write_loop fo (teds self) out = Inr (out @ take (q - p) (drop p buf)))"

text \<open>
  The elements of fixed width as the templates declare them: a positive width for the
  numeric kinds, a multiple of five bits for the five-bit string, 16 bits for the date, no
  bits for a constant.
\<close>

fun fixed_field :: "teds_element \<Rightarrow> bool" where
  "fixed_field (UnIntTedsElement l v) = (0 < l)"
| "fixed_field (Chr5TedsElement l v) = (0 \<le> l \<and> l mod 5 = 0)"
| "fixed_field (DateTedsElement l v) = (l = 16)"
| "fixed_field (ConResTedsElement l start step v) = (0 < l)"
| "fixed_field (ConRelResTedsElement l start step v) = (0 < l)"
| "fixed_field (ConstantTedsElement l v) = (l = 0)"
| "fixed_field e = False"

text \<open>
  The two scaled kinds compute in floats. \<open>reencodes fo e b\<close>: the element \<open>e\<close>
  decodes the bits \<open>b\<close> and encodes the decoded value to \<open>b\<close> again.
  \<open>fields_reencode fo td bs\<close>: every scaled field of the dictionary \<open>td\<close>, laid out
  from the first bit of \<open>bs\<close>, re-encodes its bits.
\<close>

fun is_scaled :: "teds_element \<Rightarrow> bool" where
  "is_scaled (ConResTedsElement l start step v) = True"
| "is_scaled (ConRelResTedsElement l start step v) = True"
| "is_scaled e = False"

definition reencodes :: "float_ops \<Rightarrow> teds_element \<Rightarrow> bool list \<Rightarrow> bool" where
  "reencodes fo e b =
     (case from_bits fo e b of Inl err \<Rightarrow> False | Inr e' \<Rightarrow> to_bits fo e' = Inr b)"

fun fields_reencode :: "float_ops \<Rightarrow> teds_dict \<Rightarrow> bool list \<Rightarrow> bool" where
  "fields_reencode fo [] bs = True"
| "fields_reencode fo ((key, e) # td) bs =
     ((if is_scaled e then reencodes fo e (take (nat (len e)) bs) else True)
      \<and> fields_reencode fo td (drop (nat (len e)) bs))"

definition total_bits :: "teds_dict \<Rightarrow> nat" where
  "total_bits td = sum_list (map (\<lambda>kv. nat (len (snd kv))) td)"

text \<open>
  A stream that holds, from bit \<open>p\<close>, a document of the basic accelerometer template with
  no transfer function: 74 bits of header with template id 25, the selectors
  \<open>acceleration_force\<close> (bit 74) and \<open>extended_functionality\<close> (bit 75) at 0, the selector
  \<open>transfer_function\<close> (bit 109) at 0, and room for the 49 bits of the body and the 57
  bits of the trailer.
\<close>

definition accel_basic_stream :: "bool list \<Rightarrow> nat \<Rightarrow> bool" where
  "accel_basic_stream buf p \<longleftrightarrow>
     p + 180 \<le> length buf
     \<and> uint_be (rev (take 8 (drop (p + 66) buf))) = 25
     \<and> \<not> buf ! (p + 74) \<and> \<not> buf ! (p + 75) \<and> \<not> buf ! (p + 109)"

text \<open>
  The five scaled fields of that document (sensitivity, high-pass frequency, transducer
  weight, reference frequency, reference temperature) re-encode the bits they hold.
\<close>

definition scaled_reencode :: "float_ops \<Rightarrow> bool list \<Rightarrow> nat \<Rightarrow> bool" where
  "scaled_reencode fo buf p \<longleftrightarrow>
     reencodes fo (ConRelResTedsElement 16 0.0000005 0.00015 None) (take 16 (drop (p + 76) buf))
     \<and> reencodes fo (ConRelResTedsElement 8 0.005 0.03 None) (take 8 (drop (p + 92) buf))
     \<and> reencodes fo (ConRelResTedsElement 6 0.1 0.1 None) (take 6 (drop (p + 102) buf))
     \<and> reencodes fo (ConRelResTedsElement 8 0.35 0.0175 None) (take 8 (drop (p + 110) buf))
     \<and> reencodes fo (ConResTedsElement 5 15 0.5 None) (take 5 (drop (p + 118) buf))"

text \<open>
  A sample stream of the basic accelerometer template: every field is zero but the template
  id, which is 25 (\<open>10011000\<close>, least significant bit first); 74 bits of header,
  49 bits of body and 57 bits of trailer, and no user data.
\<close>

definition sample_accel :: "bool list" where
  "sample_accel =
     replicate 66 False @ [True, False, False, True, True, False, False, False]
       @ replicate 106 False"

text \<open>
  A sample stream with a template id the codec does not know (99, \<open>11000110\<close> least
  significant bit first): the header and 57 bits of trailer.
\<close>

definition sample_unknown :: "bool list" where
  "sample_unknown =
     replicate 66 False @ [True, True, False, False, False, True, True, False]
       @ replicate 57 False"

section \<open>Basic facts about bit strings\<close>

lemma bindE_simps [simp]: "bindE (Inl e) f = Inl e" "bindE (Inr x) f = f x"
  by (simp_all add: bindE_def)

lemma uint_be_Nil [simp]: "uint_be [] = 0"
  by (simp add: uint_be_def)

lemma uint_be_snoc [simp]: "uint_be (xs @ [b]) = 2 * uint_be xs + (if b then 1 else 0)"
  by (simp add: uint_be_def)

lemma uint_be_zeros_append [simp]: "uint_be (replicate k False @ xs) = uint_be xs"
proof -
  have "foldl (\<lambda>a b. 2 * a + (if b then 1 else 0)) (0::nat) (replicate k False) = 0"
    by (induction k) simp_all
  then show ?thesis by (simp add: uint_be_def)
qed

lemma length_bin_be [simp]: "length (bin_be n v) = n"
  by (induction n arbitrary: v) simp_all

lemma uint_be_bin_be: "uint_be (bin_be n v) = v mod 2 ^ n"
proof (induction n arbitrary: v)
  case 0
  then show ?case by simp
next
  case (Suc n)
  have "v mod (2 * 2 ^ n) = 2 * (v div 2 mod 2 ^ n) + v mod 2"
    by (simp add: mod_mult2_eq)
  with Suc show ?case by (simp add: odd_iff_mod_2_eq_one)
qed

lemma bin_be_uint_be: "bin_be (length xs) (uint_be xs) = xs"
  by (induction xs rule: rev_induct) simp_all

lemma uint_be_less: "uint_be xs < 2 ^ length xs"
  by (induction xs rule: rev_induct) simp_all

lemma length_zero_pad: "length (zero_pad_bitstream xs) mod 8 = 0"
  by (simp add: zero_pad_bitstream_def Let_def)

lemma tobytes_aligned: "length xs mod 8 = 0 \<Longrightarrow> tobytes xs = xs"
  by (simp add: tobytes_def)

lemma decode_uint [simp]:
  "int_from_bytes (reverse_bitstream (zero_pad_bitstream xs)) = uint_be (rev xs)"
proof -
  have "tobytes (rev (zero_pad_bitstream xs)) = rev (zero_pad_bitstream xs)"
    by (rule tobytes_aligned) (simp add: length_zero_pad)
  then show ?thesis
    by (simp add: int_from_bytes_def reverse_bitstream_def) (simp add: zero_pad_bitstream_def Let_def)
qed

lemma to_bitstream_int:
  "0 < l \<Longrightarrow> 0 \<le> v \<Longrightarrow> v < 2 ^ nat l \<Longrightarrow>
   to_bitstream l (PyInt v) = Inr (rev (bin_be (nat l) (nat v)))"
  by (simp add: to_bitstream_def Bits_uint_def reverse_bitstream_def)

lemma bin_be_zero [simp]: "bin_be k 0 = replicate k False"
  by (induction k) (simp_all add: replicate_append_same)

lemma bin_be_add_mult: "bin_be k (v + 2 ^ k * m) = bin_be k v"
proof (induction k arbitrary: v m)
  case 0
  then show ?case by simp
next
  case (Suc k)
  have "(v + 2 ^ Suc k * m) div 2 = v div 2 + 2 ^ k * m" by simp
  with Suc show ?case by simp
qed

lemma uint_be_bin_digits [simp]: "uint_be (bin_digits n) = n"
proof (induction n rule: bin_digits.induct)
  case (1 n)
  show ?case
  proof (cases "n < 2")
    case True
    then have "n = 0 \<or> n = 1" by auto
    then show ?thesis by (auto simp: bin_digits.simps [of n] uint_be_def)
  next
    case False
    with 1 show ?thesis by (simp add: bin_digits.simps [of n])
  qed
qed

lemma length_bin_digits: "n < 2 ^ k \<Longrightarrow> 0 < k \<Longrightarrow> length (bin_digits n) \<le> k"
proof (induction k arbitrary: n)
  case 0
  then show ?case by simp
next
  case (Suc k)
  show ?case
  proof (cases "n < 2")
    case True
    then show ?thesis by (simp add: bin_digits.simps [of n])
  next
    case False
    with Suc.prems have "n div 2 < 2 ^ k" "0 < k" by (auto intro: Nat.gr0I)
    with Suc.IH have "length (bin_digits (n div 2)) \<le> k" by simp
    with False show ?thesis by (simp add: bin_digits.simps [of n])
  qed
qed

lemma low_digits:
  "drop (length (zfill k (bin_digits n)) - k) (zfill k (bin_digits n)) = bin_be k n"
proof (induction k arbitrary: n)
  case 0
  then show ?case by simp
next
  case (Suc k)
  show ?case
  proof (cases "n < 2")
    case True
    then have "n div 2 = 0" by simp
    with True show ?thesis by (simp add: bin_digits.simps [of n] zfill_def)
  next
    case False
    let ?ds = "bin_digits (n div 2)"
    have z: "zfill (Suc k) (bin_digits n) = zfill k ?ds @ [odd n]"
      using False by (simp add: bin_digits.simps [of n] zfill_def)
    have "length (zfill k ?ds) - k \<le> length (zfill k ?ds)" by simp
    then show ?thesis using Suc.IH [of "n div 2"] by (simp add: z)
  qed
qed

lemma zfill_bin_digits: "n < 2 ^ k \<Longrightarrow> 0 < k \<Longrightarrow> zfill k (bin_digits n) = bin_be k n"
proof -
  assume "n < 2 ^ k" "0 < k"
  then have "length (bin_digits n) \<le> k" by (rule length_bin_digits)
  then have "length (zfill k (bin_digits n)) = k" by (simp add: zfill_def)
  with low_digits [of k n] show ?thesis by simp
qed

section \<open>Strings: encoding and decoding are inverse\<close>

lemma Chr5_to_bits_Nil [simp]: "Chr5_to_bits [] = []"
  by (simp add: Chr5_to_bits_def)

lemma Chr5_to_bits_Cons [simp]:
  "Chr5_to_bits (c # s) = rev (bin_be 5 (of_char c)) @ Chr5_to_bits s"
  by (simp add: Chr5_to_bits_def Let_def low_digits)

lemma Chr5_to_bits_append [simp]:
  "Chr5_to_bits (s @ t) = Chr5_to_bits s @ Chr5_to_bits t"
  by (induction s) simp_all

lemma length_Chr5_to_bits [simp]: "length (Chr5_to_bits s) = 5 * length s"
  by (induction s) simp_all

lemma Ascii_to_bits_Nil [simp]: "Ascii_to_bits [] = []"
  by (simp add: Ascii_to_bits_def)

lemma Ascii_to_bits_Cons:
  "Ascii_to_bits (c # s) = rev (zfill 7 (bin_digits (of_char c))) @ Ascii_to_bits s"
  by (simp add: Ascii_to_bits_def Let_def)

lemma Ascii_to_bits_Cons_ascii [simp]:
  "(of_char c :: nat) < 128 \<Longrightarrow> Ascii_to_bits (c # s) = rev (bin_be 7 (of_char c)) @ Ascii_to_bits s"
  by (simp add: Ascii_to_bits_Cons zfill_bin_digits)

lemma length_Ascii_to_bits:
  "\<forall>c\<in>set s. (of_char c :: nat) < 128 \<Longrightarrow> length (Ascii_to_bits s) = 7 * length s"
  by (induction s) simp_all

lemma mod32_aux: "96 \<le> (n::nat) \<Longrightarrow> n < 128 \<Longrightarrow> 96 + n mod 32 = n"
proof -
  assume a: "96 \<le> n" "n < 128"
  then have "n = (n - 96) + 3 * 32" by simp
  then have "n mod 32 = (n - 96) mod 32" by (metis mod_mult_self1)
  also have "\<dots> = n - 96" using a by simp
  finally show ?thesis using a by simp
qed

lemma chr5_char:
  assumes "96 \<le> (of_char c :: nat)" "(of_char c :: nat) < 128"
  shows "char_of (96 + uint_be (bin_be 5 (of_char c :: nat))) = c"
proof -
  have "uint_be (bin_be 5 (of_char c :: nat)) = (of_char c :: nat) mod 32"
    by (simp only: uint_be_bin_be) simp
  then have "96 + uint_be (bin_be 5 (of_char c :: nat)) = (of_char c :: nat)"
    using mod32_aux [OF assms] by (simp only:)
  then show ?thesis by (simp only: char_of_char)
qed

lemma Chr5_loop_encode:
  "\<forall>c\<in>set s. 96 \<le> (of_char c :: nat) \<and> (of_char c :: nat) < 128 \<Longrightarrow>
   Chr5_loop (length s) (Chr5_to_bits s) acc = Inr (acc @ s)"
proof (induction s arbitrary: acc)
  case Nil
  then show ?case by simp
next
  case (Cons c s)
  then have "char_of (96 + uint_be (bin_be 5 (of_char c :: nat))) = c"
    by (simp add: chr5_char)
  with Cons show ?case by (simp add: Let_def)
qed

lemma Chr5_from_bits_to_bits:
  "\<forall>c\<in>set s. 96 \<le> (of_char c :: nat) \<and> (of_char c :: nat) < 128 \<Longrightarrow>
   Chr5_from_bits (Chr5_to_bits s) = Inr s"
  using Chr5_loop_encode [of s "[]"] by (simp add: Chr5_from_bits_def)

lemma Ascii_loop_encode:
  "\<forall>c\<in>set s. (of_char c :: nat) < 128 \<Longrightarrow>
   Ascii_loop (length s) (Ascii_to_bits s) acc = acc @ s"
proof (induction s arbitrary: acc)
  case Nil
  then show ?case by simp
next
  case (Cons c s)
  then have "(of_char c :: nat) mod 128 = of_char c" by simp
  with Cons show ?case by (simp add: Let_def length_Ascii_to_bits uint_be_bin_be)
qed

lemma Ascii_from_bits_to_bits:
  "\<forall>c\<in>set s. (of_char c :: nat) < 128 \<Longrightarrow> Ascii_from_bits (Ascii_to_bits s) = s"
  using Ascii_loop_encode [of s "[]"]
  by (simp add: Ascii_from_bits_def length_Ascii_to_bits)

text \<open>Decoding, then encoding.\<close>

lemma group5:
  assumes "length g = 5"
  shows "rev (bin_be 5 (of_char (char_of (96 + uint_be (rev g)) :: char) :: nat)) = g"
proof -
  have lt: "uint_be (rev g) < 32" using uint_be_less [of "rev g"] assms by simp
  then have "(of_char (char_of (96 + uint_be (rev g)) :: char) :: nat) = uint_be (rev g) + 2 ^ 5 * 3"
    by simp
  then have "bin_be 5 (of_char (char_of (96 + uint_be (rev g)) :: char) :: nat) = bin_be 5 (uint_be (rev g))"
    by (simp only: bin_be_add_mult)
  also have "\<dots> = rev g" using bin_be_uint_be [of "rev g"] assms by simp
  finally show ?thesis by simp
qed

lemma Chr5_loop_decode:
  "length bs = 5 * k \<Longrightarrow>
   \<exists>s. Chr5_loop k bs acc = Inr (acc @ s) \<and> Chr5_to_bits s = bs \<and> length s = k"
proof (induction k arbitrary: bs acc)
  case 0
  then show ?case by simp
next
  case (Suc k)
  let ?c = "char_of (96 + uint_be (rev (take 5 bs))) :: char"
  from Suc.prems have "length (drop 5 bs) = 5 * k" by simp
  from Suc.IH [OF this, of "acc @ [?c]"] obtain s
    where s: "Chr5_loop k (drop 5 bs) ((acc @ [?c]) ) = Inr ((acc @ [?c]) @ s)"
      "Chr5_to_bits s = drop 5 bs" "length s = k" by blast
  have g: "rev (bin_be 5 (of_char ?c :: nat)) = take 5 bs"
    by (rule group5) (use Suc.prems in simp)
  have "Chr5_loop (Suc k) bs acc = Inr (acc @ (?c # s))"
    using s(1) Suc.prems by (simp add: Let_def)
  moreover have "Chr5_to_bits (?c # s) = bs"
    using g s(2) by (simp del: of_char_of)
  ultimately show ?case using s(3) by (intro exI [of _ "?c # s"]) simp
qed

lemma group7:
  assumes "length g = 7"
  shows "(of_char (char_of (uint_be (rev g)) :: char) :: nat) < 128"
    and "rev (bin_be 7 (of_char (char_of (uint_be (rev g)) :: char) :: nat)) = g"
proof -
  have lt: "uint_be (rev g) < 128" using uint_be_less [of "rev g"] assms by simp
  then have eq: "(of_char (char_of (uint_be (rev g)) :: char) :: nat) = uint_be (rev g)"
    by simp
  with lt show "(of_char (char_of (uint_be (rev g)) :: char) :: nat) < 128" by simp
  have "bin_be 7 (uint_be (rev g)) = rev g" using bin_be_uint_be [of "rev g"] assms by simp
  with eq show "rev (bin_be 7 (of_char (char_of (uint_be (rev g)) :: char) :: nat)) = g"
    by simp
qed

lemma Ascii_loop_decode:
  "length bs div 7 \<le> n \<Longrightarrow>
   \<exists>s. Ascii_loop n bs acc = acc @ s \<and> length s = length bs div 7
      \<and> (\<forall>c\<in>set s. (of_char c :: nat) < 128)
      \<and> Ascii_to_bits s = take (7 * (length bs div 7)) bs"
proof (induction n arbitrary: bs acc)
  case 0
  then show ?case by simp
next
  case (Suc n)
  show ?case
  proof (cases "7 \<le> length bs")
    case False
    then have "length bs div 7 = 0" by simp
    with Suc.IH [of bs acc] False show ?thesis by simp
  next
    case True
    let ?c = "char_of (uint_be (rev (take 7 bs))) :: char"
    from True have d: "length (drop 7 bs) div 7 = length bs div 7 - 1"
      by (simp add: le_div_geq)
    from True have pos: "0 < length bs div 7" by (simp add: div_greater_zero_iff)
    with Suc.prems d have "length (drop 7 bs) div 7 \<le> n" by simp
    from Suc.IH [OF this, of "acc @ [?c]"] obtain s
      where s: "Ascii_loop n (drop 7 bs) (acc @ [?c]) = (acc @ [?c]) @ s"
        "length s = length (drop 7 bs) div 7"
        "\<forall>c\<in>set s. (of_char c :: nat) < 128"
        "Ascii_to_bits s = take (7 * (length (drop 7 bs) div 7)) (drop 7 bs)" by blast
    have l7: "length (take 7 bs) = 7" using True by simp
    note g = group7 [OF l7]
    have 1: "Ascii_loop (Suc n) bs acc = acc @ (?c # s)"
      using s(1) True by (simp add: Let_def)
    have 2: "length (?c # s) = length bs div 7" using s(2) d pos by simp
    have 3: "\<forall>c\<in>set (?c # s). (of_char c :: nat) < 128" using s(3) g(1) by simp
    have "7 * (length bs div 7) = 7 + 7 * (length (drop 7 bs) div 7)" using d pos by simp
    then have "take (7 * (length bs div 7)) bs
        = take 7 bs @ take (7 * (length (drop 7 bs) div 7)) (drop 7 bs)"
      by (simp only: take_add)
    with g s(4) have 4: "Ascii_to_bits (?c # s) = take (7 * (length bs div 7)) bs"
      by (simp del: of_char_of)
    from 1 2 3 4 show ?thesis by blast
  qed
qed


lemma from_bits_UnInt_rev:
  "v < 2 ^ n \<Longrightarrow>
   from_bits fo (UnIntTedsElement l x) (rev (bin_be n v)) = Inr (UnIntTedsElement l (Some (int v)))"
  by (simp add: uint_be_bin_be)

lemma bin_be_4_5: "bin_be 4 5 = [False, True, False, True]"
  by code_simp

lemma Ascii_from_bits_total:
  "\<exists>s. Ascii_from_bits bs = s \<and> length s = length bs div 7
      \<and> (\<forall>c\<in>set s. (of_char c :: nat) < 128)
      \<and> Ascii_to_bits s = take (7 * (length bs div 7)) bs"
proof -
  have "length bs div 7 \<le> (length bs + 6) div 7" by (simp add: div_le_mono)
  from Ascii_loop_decode [OF this, of "[]"] show ?thesis
    by (simp add: Ascii_from_bits_def)
qed

section \<open>Fixed-width fields: decoding succeeds and encoding inverts it\<close>

lemma read_ok:
  "0 \<le> n \<Longrightarrow> pos s + nat n \<le> length (bits s) \<Longrightarrow>
   read n s = Inr (take (nat n) (drop (pos s) (bits s)), s\<lparr>pos := pos s + nat n\<rparr>)"
  by (simp add: read_def)

lemma to_bitstream_float:
  assumes "0 < l" "n < 2 ^ nat l"
  shows "to_bitstream l (PyFloat (real n)) = Inr (rev (bin_be (nat l) n))"
proof -
  from assms(2) have "int n < 2 ^ nat l" by (metis of_nat_less_iff of_nat_numeral of_nat_power)
  with assms(1) show ?thesis
    by (simp add: to_bitstream_def Bits_uint_def reverse_bitstream_def)
qed

lemma enc_dec: "rev (bin_be (length b) (uint_be (rev b))) = b"
  using bin_be_uint_be [of "rev b"] by simp

lemma uint_rev_less: "uint_be (rev b) < 2 ^ length b"
  using uint_be_less [of "rev b"] by simp

lemma fixed_field_len: "fixed_field e \<Longrightarrow> 0 \<le> len e \<and> (is_Constant e \<longrightarrow> len e = 0)"
  by (cases e) auto

lemma rt_UnInt:
  assumes "0 < l" "length b = nat l"
  shows "to_bitstream l (PyInt (int (uint_be (rev b)))) = Inr b"
proof -
  have "int (uint_be (rev b)) < 2 ^ nat l"
    using uint_rev_less [of b] assms(2)
    by (metis of_nat_less_iff of_nat_numeral of_nat_power)
  with assms(1) have "to_bitstream l (PyInt (int (uint_be (rev b))))
      = Inr (rev (bin_be (nat l) (uint_be (rev b))))"
    by (simp add: to_bitstream_int)
  with enc_dec [of b] assms(2) show ?thesis by simp
qed

lemma rt_float:
  assumes "0 < l" "length b = nat l"
  shows "to_bitstream l (PyFloat (real (uint_be (rev b)))) = Inr b"
proof -
  have "uint_be (rev b) < 2 ^ nat l" using uint_rev_less [of b] assms(2) by simp
  from to_bitstream_float [OF assms(1) this] enc_dec [of b] assms(2) show ?thesis by simp
qed


text \<open>Without rounding, the scaled kinds encode what they decode.\<close>

lemma rt_ConRes:
  assumes "0 < l" "step \<noteq> 0" "length b = nat l"
  shows "reencodes exact_arith (ConResTedsElement l start step v) b"
proof -
  have "uint_be (rev b) < 2 ^ nat l" using uint_rev_less [of b] assms(3) by simp
  from to_bitstream_float [OF assms(1) this] enc_dec [of b] assms(2,3)
  show ?thesis by (simp add: reencodes_def exact_arith_def)
qed

lemma rt_ConRelRes:
  assumes "0 < l" "start \<noteq> 0" "0 < 1 + 2 * step" "step \<noteq> 0" "length b = nat l"
  shows "reencodes exact_arith (ConRelResTedsElement l start step v) b"
proof -
  let ?n = "uint_be (rev b)"
  let ?c = "1 + 2 * step"
  have lt: "?n < 2 ^ nat l" using uint_rev_less [of b] assms(5) by simp
  have ln0: "ln ?c \<noteq> 0" using assms(3,4) by simp
  have q: "start * ?c ^ ?n / start = ?c ^ ?n" using assms(2) by simp
  have pos: "0 < ?c ^ ?n" using assms(3) by simp
  have "ln (?c ^ ?n) / ln ?c = real ?n"
    using ln0 assms(3) by (simp add: ln_realpow)
  moreover have "\<not> ?c ^ ?n \<le> 0" using pos by simp
  ultimately have
    "to_bits exact_arith (ConRelResTedsElement l start step (Some (start * ?c ^ ?n)))
       = to_bitstream l (PyFloat (real ?n))"
    using q ln0 assms(2,3) by (simp add: Let_def exact_arith_def)
  with to_bitstream_float [OF assms(1) lt] enc_dec [of b] assms(5)
  have "to_bits exact_arith (ConRelResTedsElement l start step (Some (start * ?c ^ ?n)))
       = Inr b" by simp
  moreover have "from_bits exact_arith (ConRelResTedsElement l start step v) b
       = Inr (ConRelResTedsElement l start step (Some (start * ?c ^ ?n)))"
    by (simp add: exact_arith_def)
  ultimately show ?thesis by (simp add: reencodes_def del: to_bits.simps from_bits.simps)
qed


lemma rt_Date:
  assumes "length b = 16"
  shows "\<exists>d. from_bits fo (DateTedsElement 16 v) b = Inr (DateTedsElement 16 (Some d))
            \<and> to_bits fo (DateTedsElement 16 (Some d)) = Inr b"
proof -
  let ?n = "uint_be (rev b)"
  have lt: "?n < 65536" using uint_rev_less [of b] assms by simp
  then have dec: "from_bits fo (DateTedsElement 16 v) b
      = Inr (DateTedsElement 16 (Some (Datetime (729390 + int ?n) 0)))"
    by (simp add: datetime_add_days_def epoch_def)
  have "int ?n < 2 ^ nat 16" using lt by simp
  then have "to_bitstream 16 (PyInt (int ?n)) = Inr (rev (bin_be (nat 16) ?n))"
    by (simp add: to_bitstream_int)
  with enc_dec [of b] assms
  have "to_bits fo (DateTedsElement 16 (Some (Datetime (729390 + int ?n) 0))) = Inr b"
    by (simp add: timedelta_days_def epoch_def)
  with dec show ?thesis by blast
qed

lemma rt_Chr5:
  assumes "0 \<le> l" "l mod 5 = 0" "length b = nat l"
  shows "\<exists>s. from_bits fo (Chr5TedsElement l v) b = Inr (Chr5TedsElement l (Some s))
            \<and> to_bits fo (Chr5TedsElement l (Some s)) = Inr b"
proof -
  from assms(2) have "5 dvd l" by (simp add: dvd_eq_mod_eq_0)
  then obtain j where j: "l = 5 * j" by (rule dvdE)
  with assms(1) have "0 \<le> j" by simp
  define k where "k = nat j"
  with j \<open>0 \<le> j\<close> have k: "l = 5 * int k" by simp
  with assms(3) have lb: "length b = 5 * k" by simp
  then have it: "(length b + 4) div 5 = k" by simp
  from Chr5_loop_decode [OF lb, of "[]"] obtain s where
    "Chr5_loop k b [] = Inr s" "Chr5_to_bits s = b" by auto
  with it show ?thesis by (simp add: Chr5_from_bits_def)
qed


lemma elem_rt:
  assumes "fixed_field e" "length b = nat (len e)" "is_scaled e \<longrightarrow> reencodes fo e b"
  shows "\<exists>e'. from_bits fo e b = Inr e' \<and> is_Constant e' = is_Constant e
            \<and> (\<not> is_Constant e \<longrightarrow> to_bits fo e' = Inr b)"
proof (cases e)
  case (UnIntTedsElement l v)
  with assms show ?thesis by (simp add: rt_UnInt)
next
  case (Chr5TedsElement l v)
  with assms rt_Chr5 [of l b fo v] show ?thesis by auto
next
  case (DateTedsElement l v)
  with assms rt_Date [of b fo v] show ?thesis by auto
next
  case (ConResTedsElement l start step v)
  with assms(3) have "reencodes fo e b" by simp
  then obtain e' where e': "from_bits fo e b = Inr e'" "to_bits fo e' = Inr b"
    by (cases "from_bits fo e b") (simp_all add: reencodes_def)
  from e'(1) have "\<not> is_Constant e'" by (auto simp: ConResTedsElement)
  with e' show ?thesis by (simp add: ConResTedsElement del: from_bits.simps)
next
  case (ConRelResTedsElement l start step v)
  with assms(3) have "reencodes fo e b" by simp
  then obtain e' where e': "from_bits fo e b = Inr e'" "to_bits fo e' = Inr b"
    by (cases "from_bits fo e b") (simp_all add: reencodes_def)
  from e'(1) have "\<not> is_Constant e'"
    by (auto simp: ConRelResTedsElement split: option.splits)
  with e' show ?thesis by (simp add: ConRelResTedsElement del: from_bits.simps)
next
  case (ConstantTedsElement l v)
  with assms show ?thesis by simp
qed (use assms in simp_all)


section \<open>Processing a dictionary of fields\<close>

lemma total_bits_Nil [simp]: "total_bits [] = 0"
  by (simp add: total_bits_def)

lemma total_bits_Cons [simp]: "total_bits (kv # td) = nat (len (snd kv)) + total_bits td"
  by (simp add: total_bits_def)

lemma total_bits_append [simp]: "total_bits (xs @ ys) = total_bits xs + total_bits ys"
  by (simp add: total_bits_def)


lemma bindE_Inr: "bindE m f = Inr y \<longleftrightarrow> (\<exists>x. m = Inr x \<and> f x = Inr y)"
  by (cases m) simp_all

lemma process_loop_fixed:
  assumes "\<forall>kv\<in>set td. fixed_field (snd kv)"
    and "pos s + total_bits td \<le> length (bits s)"
    and "fields_reencode fo td (drop (pos s) (bits s))"
  shows "\<exists>td'. process_loop fo td s = Inr (td', s\<lparr>pos := pos s + total_bits td\<rparr>)
            \<and> map fst td' = map fst td
            \<and> (\<forall>out. write_loop fo td' out
                  = Inr (out @ take (total_bits td) (drop (pos s) (bits s))))"
  using assms
proof (induction td arbitrary: s)
  case Nil
  then show ?case by simp
next
  case (Cons kv td)
  obtain k e where kv: "kv = (k, e)" by (cases kv)
  let ?n = "nat (len e)"
  let ?b = "take ?n (drop (pos s) (bits s))"
  let ?s1 = "s\<lparr>pos := pos s + ?n\<rparr>"
  from Cons.prems kv have ff: "fixed_field e" by simp
  from fixed_field_len [OF ff] have l0: "0 \<le> len e" and lc: "is_Constant e \<longrightarrow> len e = 0"
    by simp_all
  from Cons.prems kv have room: "pos s + ?n + total_bits td \<le> length (bits s)" by simp
  then have rd: "read (len e) s = Inr (?b, ?s1)" using l0 by (simp add: read_ok)
  have lb: "length ?b = ?n" using room by simp
  from Cons.prems(3) kv have re: "is_scaled e \<longrightarrow> reencodes fo e ?b"
    and re': "fields_reencode fo td (drop ?n (drop (pos s) (bits s)))" by simp_all
  from elem_rt [OF ff lb re] obtain e' where
    e': "from_bits fo e ?b = Inr e'" "is_Constant e' = is_Constant e"
        "\<not> is_Constant e \<longrightarrow> to_bits fo e' = Inr ?b" by blast
  have "\<forall>kv\<in>set td. fixed_field (snd kv)" using Cons.prems by simp
  moreover have "pos ?s1 + total_bits td \<le> length (bits ?s1)" using room by simp
  moreover have "fields_reencode fo td (drop (pos ?s1) (bits ?s1))"
    using re' by (simp add: add.commute)
  ultimately obtain td' where
    td': "process_loop fo td ?s1 = Inr (td', ?s1\<lparr>pos := pos ?s1 + total_bits td\<rparr>)"
      "map fst td' = map fst td"
      "\<forall>out. write_loop fo td' out = Inr (out @ take (total_bits td) (drop (pos ?s1) (bits ?s1)))"
    using Cons.IH [of ?s1] by blast
  have ne: "len e \<noteq> -1" using l0 by simp
  have 1: "process_loop fo (kv # td) s
        = Inr ((k, e') # td', s\<lparr>pos := pos s + total_bits (kv # td)\<rparr>)"
    using rd e'(1) td'(1) ne by (simp add: kv add.assoc)
  have 2: "map fst ((k, e') # td') = map fst (kv # td)" using td'(2) kv by simp
  have 3: "write_loop fo ((k, e') # td') out
        = Inr (out @ take (total_bits (kv # td)) (drop (pos s) (bits s)))" for out
  proof (cases "is_Constant e")
    case True
    with lc have "?n = 0" by simp
    with True e'(2) td'(3) show ?thesis by (simp add: kv)
  next
    case False
    have "take (?n + total_bits td) (drop (pos s) (bits s))
        = ?b @ take (total_bits td) (drop (pos s + ?n) (bits s))"
      by (simp only: take_add drop_drop) (simp add: add.commute)
    with False e'(2,3) td'(3) show ?thesis by (simp add: kv)
  qed
  from 1 2 3 show ?case by blast
qed

text \<open>A decoding of fixed-width fields that succeeds has read their bits, whatever the floats.\<close>

lemma process_loop_pos:
  assumes "\<forall>kv\<in>set td. fixed_field (snd kv)" "process_loop fo td s = Inr (td', s')"
  shows "s' = s\<lparr>pos := pos s + total_bits td\<rparr> \<and> map fst td' = map fst td"
  using assms
proof (induction td arbitrary: s td' s')
  case Nil
  then show ?case by auto
next
  case (Cons kv td)
  obtain k e where kv: "kv = (k, e)" by (cases kv)
  from Cons.prems kv have ff: "fixed_field e" by simp
  from fixed_field_len [OF ff] have l0: "0 \<le> len e" by simp
  then have ne: "len e \<noteq> -1" by simp
  from Cons.prems(2) kv ne obtain b s1 e' td1 s2 where
    rd: "read (len e) s = Inr (b, s1)" and pl: "process_loop fo td s1 = Inr (td1, s2)"
    and r: "td' = (k, e') # td1" "s' = s2"
    by (auto simp: bindE_Inr)
  from rd l0 have s1: "s1 = s\<lparr>pos := pos s + nat (len e)\<rparr>"
    by (auto simp: read_def split: if_splits)
  have "\<forall>kv\<in>set td. fixed_field (snd kv)" using Cons.prems by simp
  from Cons.IH [OF this pl]
  have "s2 = s1\<lparr>pos := pos s1 + total_bits td\<rparr> \<and> map fst td1 = map fst td" .
  with s1 r kv show ?case by (simp add: add.assoc)
qed


lemma update_new: "k \<notin> fst ` set d \<Longrightarrow> AList.update k v d = d @ [(k, v)]"
  by (induction d) auto

lemma dict_update_append:
  "distinct (map fst td) \<Longrightarrow> fst ` set td \<inter> fst ` set d = {} \<Longrightarrow> dict_update d td = d @ td"
proof (induction td arbitrary: d)
  case Nil
  then show ?case by (simp add: dict_update_def)
next
  case (Cons kv td)
  have "dict_update d (kv # td) = dict_update (AList.update (fst kv) (snd kv) d) td"
    by (simp add: dict_update_def)
  also have "AList.update (fst kv) (snd kv) d = d @ [kv]"
    using Cons.prems by (simp add: update_new)
  also have "dict_update (d @ [kv]) td = (d @ [kv]) @ td"
    using Cons.prems by (intro Cons.IH) auto
  finally show ?case by simp
qed

lemma dict_update_snoc:
  "dict_update d (td @ [(k, v)]) = AList.update k v (dict_update d td)"
  by (simp add: dict_update_def)

lemma write_loop_append:
  "write_loop fo (d1 @ d2) out = bindE (write_loop fo d1 out) (write_loop fo d2)"
proof (induction d1 arbitrary: out)
  case Nil
  then show ?case by simp
next
  case (Cons kv d1)
  obtain k e where kv: "kv = (k, e)" by (cases kv)
  show ?case
  proof (cases "to_bits fo e")
    case (Inl err)
    then show ?thesis using Cons by (simp add: kv)
  next
    case (Inr b)
    then show ?thesis using Cons by (simp add: kv)
  qed
qed

lemma process_loop_append:
  "process_loop fo (xs @ ys) s =
     bindE (process_loop fo xs s) (\<lambda>(xs', s1).
       bindE (process_loop fo ys s1) (\<lambda>(ys', s2). Inr (xs' @ ys', s2)))"
proof (induction xs arbitrary: s)
  case Nil
  show ?case by (cases "process_loop fo ys s") auto
next
  case (Cons kv xs)
  obtain k e where kv: "kv = (k, e)" by (cases kv)
  let ?r = "if len e = -1 then read (int (length (bits s)) - int (pos s)) s else read (len e) s"
  show ?case
  proof (cases ?r)
    case (Inl err)
    then show ?thesis by (simp add: kv)
  next
    case (Inr bs1)
    obtain b s1 where bs1: "bs1 = (b, s1)" by (cases bs1)
    show ?thesis
    proof (cases "from_bits fo e b")
      case (Inl err)
      with Inr bs1 show ?thesis by (simp add: kv)
    next
      case e': (Inr e')
      show ?thesis
      proof (cases "process_loop fo xs s1")
        case (Inl err)
        with Inr bs1 e' Cons [of s1] show ?thesis by (simp add: kv)
      next
        case r: (Inr xr)
        obtain xs' s2 where xr: "xr = (xs', s2)" by (cases xr)
        show ?thesis
        proof (cases "process_loop fo ys s2")
          case (Inl err)
          with Inr bs1 e' r xr Cons [of s1] show ?thesis by (simp add: kv)
        next
          case y: (Inr yr)
          obtain ys' s3 where "yr = (ys', s3)" by (cases yr)
          with y Inr bs1 e' r xr Cons [of s1] show ?thesis by (simp add: kv)
        qed
      qed
    qed
  qed
qed

lemma one_bit: "q < length bs \<Longrightarrow> uint_be (rev (take 1 (drop q bs))) = (if bs ! q then 1 else 0)"
proof -
  assume "q < length bs"
  then have "take 1 (drop q bs) = [bs ! q]"
    by (simp add: take_Suc_conv_app_nth [symmetric] One_nat_def Cons_nth_drop_Suc
        take_Suc hd_drop_conv_nth)
  then show ?thesis by (simp add: uint_be_def)
qed


lemma process_loop_value:
  assumes "\<forall>kv\<in>set pre. fixed_field (snd kv)" "0 < l" "k \<notin> fst ` set pre"
    and "pos s + total_bits pre + nat l \<le> length (bits s)"
    and "process_loop fo (pre @ (k, UnIntTedsElement l v) # post) s = Inr (td', s')"
  shows "map_of td' k = Some (UnIntTedsElement l
           (Some (int (uint_be (rev (take (nat l) (drop (pos s + total_bits pre) (bits s))))))))"
proof -
  let ?s1 = "s\<lparr>pos := pos s + total_bits pre\<rparr>"
  from assms(5) obtain pre' s1 r' s2 where
    p: "process_loop fo pre s = Inr (pre', s1)"
    and q: "process_loop fo ((k, UnIntTedsElement l v) # post) s1 = Inr (r', s2)"
    and td: "td' = pre' @ r'"
    by (auto simp: process_loop_append bindE_Inr)
  from process_loop_pos [OF assms(1) p] have s1: "s1 = ?s1" and ks: "map fst pre' = map fst pre"
    by simp_all
  have rd: "read l ?s1 = Inr (take (nat l) (drop (pos s + total_bits pre) (bits s)),
               ?s1\<lparr>pos := pos ?s1 + nat l\<rparr>)"
    using assms(2,4) read_ok [of l ?s1] by simp
  let ?e' = "UnIntTedsElement l
           (Some (int (uint_be (rev (take (nat l) (drop (pos s + total_bits pre) (bits s)))))))"
  have ne: "l \<noteq> -1" using assms(2) by simp
  from q rd ne s1 obtain post' where "r' = (k, ?e') # post'"
    by (auto simp: bindE_Inr)
  with td have "td' = pre' @ (k, ?e') # post'" by simp
  moreover have "k \<notin> fst ` set pre'" using ks assms(3) by (metis set_map)
  then have "map_of pre' k = None" by (simp add: map_of_eq_None_iff)
  ultimately show ?thesis by (simp add: map_add_def)
qed


lemma bindE_assoc: "bindE (bindE m f) g = bindE m (\<lambda>x. bindE (f x) g)"
  by (cases m) simp_all

lemma bindE_if: "bindE (if c then a else b) f = (if c then bindE a f else bindE b f)"
  by simp

lemma init_split: "StandardTeds_init fo s hp = bindE (before_trailer fo s hp) (end_template fo)"
  by (simp add: StandardTeds_init_def before_trailer_def bindE_assoc)

lemma read_rest:
  "pos s \<le> length (bits s) \<Longrightarrow>
   read (int (length (bits s)) - int (pos s)) s
     = Inr (drop (pos s) (bits s), s\<lparr>pos := length (bits s)\<rparr>)"
  by (simp add: read_def of_nat_diff [symmetric] del: of_nat_diff)

lemma process_fixed:
  assumes ff: "\<forall>kv\<in>set td. fixed_field (snd kv)"
    and du: "decoded_upto fo buf p q ks st"
    and room: "q + total_bits td \<le> length buf"
    and dk: "distinct (map fst td)"
    and dj: "set (map fst td) \<inter> set ks = {}"
    and re: "fields_reencode fo td (drop q buf)"
  shows "\<exists>td'. process fo td st
             = Inr \<lparr>teds = teds st @ td', bitstream = \<lparr>bits = buf, pos = q + total_bits td\<rparr>\<rparr>
           \<and> process_loop fo td \<lparr>bits = buf, pos = q\<rparr>
               = Inr (td', \<lparr>bits = buf, pos = q + total_bits td\<rparr>)
           \<and> map fst td' = map fst td
           \<and> decoded_upto fo buf p (q + total_bits td) (ks @ map fst td)
               \<lparr>teds = teds st @ td', bitstream = \<lparr>bits = buf, pos = q + total_bits td\<rparr>\<rparr>"
proof -
  let ?s = "\<lparr>bits = buf, pos = q\<rparr>"
  from du have bs: "bitstream st = ?s" and pq: "p \<le> q" and ks: "map fst (teds st) = ks"
    and wr: "\<And>out. write_loop fo (teds st) out = Inr (out @ take (q - p) (drop p buf))"
    by (simp_all add: decoded_upto_def)
  have "pos ?s + total_bits td \<le> length (bits ?s)" using room by simp
  moreover have "fields_reencode fo td (drop (pos ?s) (bits ?s))" using re by simp
  ultimately obtain td' where
    td': "process_loop fo td ?s = Inr (td', \<lparr>bits = buf, pos = q + total_bits td\<rparr>)"
      "map fst td' = map fst td"
      "\<And>out. write_loop fo td' out = Inr (out @ take (total_bits td) (drop q buf))"
    using process_loop_fixed [OF ff, of ?s fo] by auto
  have "fst ` set td' = set (map fst td)" using td'(2) by (metis set_map)
  moreover have "fst ` set (teds st) = set ks" using ks by (metis set_map)
  ultimately have "dict_update (teds st) td' = teds st @ td'"
    using dk dj td'(2) by (intro dict_update_append) simp_all
  with td'(1) bs have 1: "process fo td st
      = Inr \<lparr>teds = teds st @ td', bitstream = \<lparr>bits = buf, pos = q + total_bits td\<rparr>\<rparr>"
    by (simp add: process_def)
  have "take (q - p + total_bits td) (drop p buf)
      = take (q - p) (drop p buf) @ take (total_bits td) (drop q buf)"
    using pq by (simp only: take_add drop_drop) simp
  moreover have "q + total_bits td - p = q - p + total_bits td" using pq by simp
  ultimately have "write_loop fo (teds st @ td') out
      = Inr (out @ take (q + total_bits td - p) (drop p buf))" for out
    using wr td'(3) by (simp add: write_loop_append)
  with pq room ks td'(2) have
    "decoded_upto fo buf p (q + total_bits td) (ks @ map fst td)
       \<lparr>teds = teds st @ td', bitstream = \<lparr>bits = buf, pos = q + total_bits td\<rparr>\<rparr>"
    by (simp add: decoded_upto_def)
  with 1 td'(1,2) show ?thesis by blast
qed


lemma getitem_present:
  "k \<in> set (map fst d) \<Longrightarrow> \<exists>e. getitem d k = Inr e"
proof -
  assume "k \<in> set (map fst d)"
  then have "map_of d k \<noteq> None" by (simp add: map_of_eq_None_iff)
  then show ?thesis by (auto simp: getitem_def)
qed

lemma getitem_append_new:
  "k \<notin> set (map fst d) \<Longrightarrow> map_of td k = Some e \<Longrightarrow> getitem (d @ td) k = Inr e"
proof -
  assume "k \<notin> set (map fst d)" "map_of td k = Some e"
  moreover from this have "map_of d k = None" by (simp add: map_of_eq_None_iff)
  ultimately show ?thesis by (simp add: getitem_def map_add_def)
qed

lemma decoded_upto_start: "p \<le> length buf \<Longrightarrow>
  decoded_upto fo buf p p [] \<lparr>teds = [], bitstream = \<lparr>bits = buf, pos = p\<rparr>\<rparr>"
  by (simp add: decoded_upto_def)

text \<open>The header: 74 bits, seven unsigned integers.\<close>

lemma header_ok:
  assumes room: "p + 74 \<le> length buf"
  shows "\<exists>h. process fo
            [(''manufacturer_id'', UnIntTedsElement 14 None),
             (''model_number'', UnIntTedsElement 15 None),
             (''version_letter'', UnIntTedsElement 5 None),
             (''version_number'', UnIntTedsElement 6 None),
             (''serial_number'', UnIntTedsElement 24 None),
             (''start_selector'', UnIntTedsElement 2 None),
             (''template_id'', UnIntTedsElement 8 None)]
            \<lparr>teds = [], bitstream = \<lparr>bits = buf, pos = p\<rparr>\<rparr>
          = Inr \<lparr>teds = h, bitstream = \<lparr>bits = buf, pos = p + 74\<rparr>\<rparr>
        \<and> decoded_upto fo buf p (p + 74)
            [''manufacturer_id'', ''model_number'', ''version_letter'', ''version_number'',
             ''serial_number'', ''start_selector'', ''template_id'']
            \<lparr>teds = h, bitstream = \<lparr>bits = buf, pos = p + 74\<rparr>\<rparr>
        \<and> map_of h ''template_id''
            = Some (UnIntTedsElement 8 (Some (int (uint_be (rev (take 8 (drop (p + 66) buf)))))))
        \<and> map_of h ''manufacturer_id''
            = Some (UnIntTedsElement 14 (Some (int (uint_be (rev (take 14 (drop p buf)))))))"
proof -
  let ?td = "[(''manufacturer_id'', UnIntTedsElement 14 None),
             (''model_number'', UnIntTedsElement 15 None),
             (''version_letter'', UnIntTedsElement 5 None),
             (''version_number'', UnIntTedsElement 6 None),
             (''serial_number'', UnIntTedsElement 24 None),
             (''start_selector'', UnIntTedsElement 2 None),
             (''template_id'', UnIntTedsElement 8 None)]"
  let ?pre = "[(''manufacturer_id'', UnIntTedsElement 14 None),
             (''model_number'', UnIntTedsElement 15 None),
             (''version_letter'', UnIntTedsElement 5 None),
             (''version_number'', UnIntTedsElement 6 None),
             (''serial_number'', UnIntTedsElement 24 None),
             (''start_selector'', UnIntTedsElement 2 None)]"
  let ?s = "\<lparr>bits = buf, pos = p\<rparr>"
  have tb: "total_bits ?td = 74" by simp
  have ff: "\<forall>kv\<in>set ?td. fixed_field (snd kv)" by simp
  have du: "decoded_upto fo buf p p [] \<lparr>teds = [], bitstream = ?s\<rparr>"
    using room by (simp add: decoded_upto_start)
  have rm: "p + total_bits ?td \<le> length buf" using room by simp
  have dk: "distinct (map fst ?td)" by simp
  have dj: "set (map fst ?td) \<inter> set [] = {}" by simp
  have re: "fields_reencode fo ?td (drop p buf)" by simp
  from process_fixed [OF ff du rm dk dj re] obtain h where
    h: "process fo ?td \<lparr>teds = [], bitstream = ?s\<rparr>
          = Inr \<lparr>teds = h, bitstream = \<lparr>bits = buf, pos = p + 74\<rparr>\<rparr>"
       "process_loop fo ?td ?s = Inr (h, \<lparr>bits = buf, pos = p + 74\<rparr>)"
       "decoded_upto fo buf p (p + 74) (map fst ?td)
          \<lparr>teds = h, bitstream = \<lparr>bits = buf, pos = p + 74\<rparr>\<rparr>"
    unfolding tb by auto
  have v1: "map_of h ''template_id''
            = Some (UnIntTedsElement 8 (Some (int (uint_be (rev (take 8 (drop (p + 66) buf)))))))"
  proof -
    have "process_loop fo (?pre @ (''template_id'', UnIntTedsElement 8 None) # []) ?s
            = Inr (h, \<lparr>bits = buf, pos = p + 74\<rparr>)"
      using h(2) by simp
    from process_loop_value [OF _ _ _ _ this] room show ?thesis by simp
  qed
  have v2: "map_of h ''manufacturer_id''
            = Some (UnIntTedsElement 14 (Some (int (uint_be (rev (take 14 (drop p buf)))))))"
  proof -
    have "process_loop fo ([] @ (''manufacturer_id'', UnIntTedsElement 14 None) # tl ?td) ?s
            = Inr (h, \<lparr>bits = buf, pos = p + 74\<rparr>)"
      using h(2) by simp
    from process_loop_value [OF _ _ _ _ this] room show ?thesis by simp
  qed
  from h(1,3) v1 v2 show ?thesis by auto
qed


lemma val_bit:
  assumes eq: "process_loop fo (pre @ (k, UnIntTedsElement 1 v) # post) \<lparr>bits = buf, pos = q\<rparr>
                 = Inr (td', s')"
    and ff: "\<forall>kv\<in>set pre. fixed_field (snd kv)" and kp: "k \<notin> fst ` set pre"
    and r: "q + total_bits pre = r" and rl: "r < length buf" and bit: "\<not> buf ! r"
    and kd: "k \<notin> set (map fst d)"
  shows "\<exists>e. getitem (d @ td') k = Inr e \<and> val_int e = Some 0"
proof -
  have "pos \<lparr>bits = buf, pos = q\<rparr> + total_bits pre + nat 1 \<le> length (bits \<lparr>bits = buf, pos = q\<rparr>)"
    using r rl by simp
  from process_loop_value [OF ff _ kp this eq]
  have "map_of td' k = Some (UnIntTedsElement 1
           (Some (int (uint_be (rev (take 1 (drop r buf)))))))"
    using r by simp
  with one_bit [OF rl] bit have "map_of td' k = Some (UnIntTedsElement 1 (Some 0))"
    by simp
  from getitem_append_new [OF kd this] show ?thesis by simp
qed

text \<open>The basic accelerometer template without a transfer function: 49 bits.\<close>

lemma accel_basic:
  assumes room: "p + 123 \<le> length buf"
    and du: "decoded_upto fo buf p (p + 74)
            [''manufacturer_id'', ''model_number'', ''version_letter'', ''version_number'',
             ''serial_number'', ''start_selector'', ''template_id''] st"
    and af: "\<not> buf ! (p + 74)" and ef: "\<not> buf ! (p + 75)" and tf: "\<not> buf ! (p + 109)"
    and r1: "reencodes fo (ConRelResTedsElement 16 0.0000005 0.00015 None)
               (take 16 (drop (p + 76) buf))"
    and r2: "reencodes fo (ConRelResTedsElement 8 0.005 0.03 None) (take 8 (drop (p + 92) buf))"
    and r3: "reencodes fo (ConRelResTedsElement 6 0.1 0.1 None) (take 6 (drop (p + 102) buf))"
    and r4: "reencodes fo (ConRelResTedsElement 8 0.35 0.0175 None)
               (take 8 (drop (p + 110) buf))"
    and r5: "reencodes fo (ConResTedsElement 5 15 0.5 None) (take 5 (drop (p + 118) buf))"
  shows "\<exists>st'. accelerometer_force_template fo st = Inr st'
          \<and> decoded_upto fo buf p (p + 123)
            [''manufacturer_id'', ''model_number'', ''version_letter'', ''version_number'',
             ''serial_number'', ''start_selector'', ''template_id'',
             ''acceleration_force'', ''extended_functionality'', ''sens_ref'', ''tf_hp_s'',
             ''direction'', ''transducer_weight'', ''elec_sig_type'', ''map_method'',
             ''ACDCCoupling'', ''sign'', ''transfer_function'', ''ref_req'', ''ref_temp''] st'"
proof -
  let ?hk = "[''manufacturer_id'', ''model_number'', ''version_letter'', ''version_number'',
             ''serial_number'', ''start_selector'', ''template_id'']"
  let ?t1 = "[(''acceleration_force'', UnIntTedsElement 1 None),
              (''extended_functionality'', UnIntTedsElement 1 None)]"
  let ?t2 = "[(''sens_ref'', ConRelResTedsElement 16 0.0000005 0.00015 None),
              (''tf_hp_s'', ConRelResTedsElement 8 0.005 0.03 None)]"
  let ?t3 = "[(''direction'', UnIntTedsElement 2 None),
               (''transducer_weight'', ConRelResTedsElement 6 0.1 0.1 None),
               (''elec_sig_type'', ConstantTedsElement 0 (Some ''Voltage Sensor'')),
               (''map_method'', ConstantTedsElement 0 (Some ''Linear'')),
               (''ACDCCoupling'', ConstantTedsElement 0 (Some ''AC'')),
               (''sign'', UnIntTedsElement 1 None),
               (''transfer_function'', UnIntTedsElement 1 None)]"
  let ?t4 = "[(''ref_req'', ConRelResTedsElement 8 0.35 0.0175 None),
          (''ref_temp'', ConResTedsElement 5 15 0.5 None)]"
  from du have ks0: "map fst (teds st) = ?hk" by (simp add: decoded_upto_def)
  have ff1: "\<forall>kv\<in>set ?t1. fixed_field (snd kv)" by simp
  have rm1: "p + 74 + total_bits ?t1 \<le> length buf" using room by simp
  have dk1: "distinct (map fst ?t1)" by simp
  have dj1: "set (map fst ?t1) \<inter> set ?hk = {}" by simp
  have tb1: "p + 74 + total_bits ?t1 = p + 76" by simp
  have re1: "fields_reencode fo ?t1 (drop (p + 74) buf)" by simp
  from process_fixed [OF ff1 du rm1 dk1 dj1 re1] obtain d1 where
    d1: "process fo ?t1 st = Inr \<lparr>teds = teds st @ d1, bitstream = \<lparr>bits = buf, pos = p + 76\<rparr>\<rparr>"
        "process_loop fo ?t1 \<lparr>bits = buf, pos = p + 74\<rparr> = Inr (d1, \<lparr>bits = buf, pos = p + 76\<rparr>)"
        "decoded_upto fo buf p (p + 76) (?hk @ map fst ?t1)
           \<lparr>teds = teds st @ d1, bitstream = \<lparr>bits = buf, pos = p + 76\<rparr>\<rparr>"
    unfolding tb1 by blast
  let ?s1 = "\<lparr>teds = teds st @ d1, bitstream = \<lparr>bits = buf, pos = p + 76\<rparr>\<rparr>"
  have "process_loop fo ([] @ (''acceleration_force'', UnIntTedsElement 1 None)
          # [(''extended_functionality'', UnIntTedsElement 1 None)]) \<lparr>bits = buf, pos = p + 74\<rparr>
        = Inr (d1, \<lparr>bits = buf, pos = p + 76\<rparr>)"
    using d1(2) by simp
  then have "\<exists>e. getitem (teds st @ d1) ''acceleration_force'' = Inr e \<and> val_int e = Some 0"
  proof (rule val_bit [where r = "p + 74"])
  qed (use room af ks0 in simp_all)
  then obtain e1 where
    e1: "getitem (teds st @ d1) ''acceleration_force'' = Inr e1" "val_int e1 = Some 0"
    by blast
  have "process_loop fo ([(''acceleration_force'', UnIntTedsElement 1 None)]
          @ (''extended_functionality'', UnIntTedsElement 1 None) # [])
          \<lparr>bits = buf, pos = p + 74\<rparr>
        = Inr (d1, \<lparr>bits = buf, pos = p + 76\<rparr>)"
    using d1(2) by simp
  then have "\<exists>e. getitem (teds st @ d1) ''extended_functionality'' = Inr e \<and> val_int e = Some 0"
  proof (rule val_bit [where r = "p + 75"])
  qed (use room ef ks0 in simp_all)
  then obtain e2 where
    e2: "getitem (teds st @ d1) ''extended_functionality'' = Inr e2" "val_int e2 = Some 0"
    by blast
  have br: "accelerometer_force_branch fo ?s1 = process fo ?t2 ?s1"
    using e1 e2 by (simp add: accelerometer_force_branch_def accelerometer_no_ext_template_def)
  have ff2: "\<forall>kv\<in>set ?t2. fixed_field (snd kv)" by simp
  have rm2: "p + 76 + total_bits ?t2 \<le> length buf" using room by simp
  have dk2: "distinct (map fst ?t2)" by simp
  have dj2: "set (map fst ?t2) \<inter> set (?hk @ map fst ?t1) = {}" by simp
  have tb2: "p + 76 + total_bits ?t2 = p + 100" by simp
  have ts1: "teds ?s1 = teds st @ d1" by simp
  have re2: "fields_reencode fo ?t2 (drop (p + 76) buf)"
    using r1 r2 by (simp add: add.commute)
  from process_fixed [OF ff2 d1(3) rm2 dk2 dj2 re2] obtain d2 where
    d2: "process fo ?t2 ?s1 = Inr 
           \<lparr>teds = (teds st @ d1) @ d2, bitstream = \<lparr>bits = buf, pos = p + 100\<rparr>\<rparr>"
        "decoded_upto fo buf p (p + 100) ((?hk @ map fst ?t1) @ map fst ?t2) 
           \<lparr>teds = (teds st @ d1) @ d2, bitstream = \<lparr>bits = buf, pos = p + 100\<rparr>\<rparr>"
    unfolding tb2 ts1 by blast
  let ?s2 = "\<lparr>teds = (teds st @ d1) @ d2, bitstream = \<lparr>bits = buf, pos = p + 100\<rparr>\<rparr>"
  have ff3: "\<forall>kv\<in>set ?t3. fixed_field (snd kv)" by simp
  have rm3: "p + 100 + total_bits ?t3 \<le> length buf" using room by simp
  have dk3: "distinct (map fst ?t3)" by simp
  have dj3: "set (map fst ?t3) \<inter> set ((?hk @ map fst ?t1) @ map fst ?t2) = {}" by simp
  have tb3: "p + 100 + total_bits ?t3 = p + 110" by simp
  have ts2: "teds ?s2 = (teds st @ d1) @ d2" by simp
  have re3: "fields_reencode fo ?t3 (drop (p + 100) buf)"
    using r3 by (simp add: add.commute)
  from process_fixed [OF ff3 d2(2) rm3 dk3 dj3 re3] obtain d3 where
    d3: "process fo ?t3 ?s2 = Inr 
           \<lparr>teds = ((teds st @ d1) @ d2) @ d3, bitstream = \<lparr>bits = buf, pos = p + 110\<rparr>\<rparr>"
        "process_loop fo ?t3 \<lparr>bits = buf, pos = p + 100\<rparr> = Inr (d3, \<lparr>bits = buf, pos = p + 110\<rparr>)"
        "decoded_upto fo buf p (p + 110) (((?hk @ map fst ?t1) @ map fst ?t2) @ map fst ?t3) 
           \<lparr>teds = ((teds st @ d1) @ d2) @ d3, bitstream = \<lparr>bits = buf, pos = p + 110\<rparr>\<rparr>"
    unfolding tb3 ts2 by blast
  let ?s3 = "\<lparr>teds = ((teds st @ d1) @ d2) @ d3, bitstream = \<lparr>bits = buf, pos = p + 110\<rparr>\<rparr>"
  from d2(2) have ks2: "map fst ((teds st @ d1) @ d2) = (?hk @ map fst ?t1) @ map fst ?t2"
    by (simp add: decoded_upto_def)
  have "process_loop fo ([(''direction'', UnIntTedsElement 2 None),
               (''transducer_weight'', ConRelResTedsElement 6 0.1 0.1 None),
               (''elec_sig_type'', ConstantTedsElement 0 (Some ''Voltage Sensor'')),
               (''map_method'', ConstantTedsElement 0 (Some ''Linear'')),
               (''ACDCCoupling'', ConstantTedsElement 0 (Some ''AC'')),
               (''sign'', UnIntTedsElement 1 None)]
          @ (''transfer_function'', UnIntTedsElement 1 None) # [])
          \<lparr>bits = buf, pos = p + 100\<rparr>
        = Inr (d3, \<lparr>bits = buf, pos = p + 110\<rparr>)"
    using d3(2) by simp
  then have "\<exists>e. getitem (((teds st @ d1) @ d2) @ d3) ''transfer_function'' = Inr e
                 \<and> val_int e = Some 0"
  proof (rule val_bit [where r = "p + 109"])
  qed (use room tf ks2 in simp_all)
  then obtain e3 where
    e3: "getitem (((teds st @ d1) @ d2) @ d3) ''transfer_function'' = Inr e3" "val_int e3 = Some 0"
    by blast
  have ff4: "\<forall>kv\<in>set ?t4. fixed_field (snd kv)" by simp
  have rm4: "p + 110 + total_bits ?t4 \<le> length buf" using room by simp
  have dk4: "distinct (map fst ?t4)" by simp
  have dj4: "set (map fst ?t4) \<inter> set (((?hk @ map fst ?t1) @ map fst ?t2) @ map fst ?t3) = {}"
    by simp
  have tb4: "p + 110 + total_bits ?t4 = p + 123" by simp
  have ts3: "teds ?s3 = ((teds st @ d1) @ d2) @ d3" by simp
  have re4: "fields_reencode fo ?t4 (drop (p + 110) buf)"
    using r4 r5 by (simp add: add.commute)
  from process_fixed [OF ff4 d3(3) rm4 dk4 dj4 re4] obtain d4 where
    d4: "process fo ?t4 ?s3 = Inr 
           \<lparr>teds = (((teds st @ d1) @ d2) @ d3) @ d4, bitstream = \<lparr>bits = buf, pos = p + 123\<rparr>\<rparr>"
        "decoded_upto fo buf p (p + 123)
           ((((?hk @ map fst ?t1) @ map fst ?t2) @ map fst ?t3) @ map fst ?t4) 
           \<lparr>teds = (((teds st @ d1) @ d2) @ d3) @ d4, bitstream = \<lparr>bits = buf, pos = p + 123\<rparr>\<rparr>"
    unfolding tb4 ts3 by blast
  let ?s4 = "\<lparr>teds = (((teds st @ d1) @ d2) @ d3) @ d4, bitstream = \<lparr>bits = buf, pos = p + 123\<rparr>\<rparr>"
  have "accelerometer_force_template fo st = Inr ?s4"
    using d1(1) br d2(1) d3(1) e3 d4(1) by (simp add: accelerometer_force_template_def)
  with d4(2) show ?thesis by simp
qed

lemma val_bit_gen:
  assumes eq: "process_loop fo (pre @ (k, UnIntTedsElement 1 v) # post) \<lparr>bits = buf, pos = q\<rparr>
                 = Inr (td', s')"
    and ff: "\<forall>kv\<in>set pre. fixed_field (snd kv)" and kp: "k \<notin> fst ` set pre"
    and r: "q + total_bits pre = r" and rl: "r < length buf"
    and kd: "k \<notin> set (map fst d)"
  shows "\<exists>e. getitem (d @ td') k = Inr e \<and> val_int e = Some (if buf ! r then 1 else 0)"
proof -
  have "pos \<lparr>bits = buf, pos = q\<rparr> + total_bits pre + nat 1 \<le> length (bits \<lparr>bits = buf, pos = q\<rparr>)"
    using r rl by simp
  from process_loop_value [OF ff _ kp this eq]
  have "map_of td' k = Some (UnIntTedsElement 1
           (Some (int (uint_be (rev (take 1 (drop r buf)))))))"
    using r by simp
  with one_bit [OF rl] have "map_of td' k = Some (UnIntTedsElement 1
           (Some (if buf ! r then 1 else 0)))"
    by simp
  from getitem_append_new [OF kd this] show ?thesis by simp
qed

section \<open>The constructor, step by step\<close>

lemma length_ni_preamble [simp]: "length ni_preamble = 40"
  by (simp add: ni_preamble_def)

lemma preamble_ok:
  "40 \<le> length bs \<Longrightarrow> take 40 bs = ni_preamble \<Longrightarrow>
   StandardTeds_init fo \<lparr>bits = bs, pos = 0\<rparr> True
     = StandardTeds_init fo \<lparr>bits = bs, pos = 40\<rparr> False"
  by (simp add: StandardTeds_init_def read_def)

lemma preamble_bad:
  "40 \<le> length bs \<Longrightarrow> take 40 bs \<noteq> ni_preamble \<Longrightarrow>
   StandardTeds_init fo \<lparr>bits = bs, pos = 0\<rparr> True
     = Inl (ValueError ''Preamble does not match the default'')"
  by (simp add: StandardTeds_init_def read_def)

text \<open>
  The header and the version check: the document holds the seven header fields, and the
  template is loaded on the identifier read from the bits 66 to 73.
\<close>

lemma before_trailer_header:
  assumes room: "p + 74 \<le> length buf"
  shows "\<exists>h. before_trailer fo \<lparr>bits = buf, pos = p\<rparr> False
            = load_template fo (Some (int (uint_be (rev (take 8 (drop (p + 66) buf))))))
                \<lparr>teds = h, bitstream = \<lparr>bits = buf, pos = p + 74\<rparr>\<rparr>
        \<and> decoded_upto fo buf p (p + 74)
            [''manufacturer_id'', ''model_number'', ''version_letter'', ''version_number'',
             ''serial_number'', ''start_selector'', ''template_id'']
            \<lparr>teds = h, bitstream = \<lparr>bits = buf, pos = p + 74\<rparr>\<rparr>
        \<and> map_of h ''manufacturer_id''
            = Some (UnIntTedsElement 14 (Some (int (uint_be (rev (take 14 (drop p buf)))))))"
proof -
  from header_ok [OF room, of fo] obtain h where
    h: "process fo
            [(''manufacturer_id'', UnIntTedsElement 14 None),
             (''model_number'', UnIntTedsElement 15 None),
             (''version_letter'', UnIntTedsElement 5 None),
             (''version_number'', UnIntTedsElement 6 None),
             (''serial_number'', UnIntTedsElement 24 None),
             (''start_selector'', UnIntTedsElement 2 None),
             (''template_id'', UnIntTedsElement 8 None)]
            \<lparr>teds = [], bitstream = \<lparr>bits = buf, pos = p\<rparr>\<rparr>
          = Inr \<lparr>teds = h, bitstream = \<lparr>bits = buf, pos = p + 74\<rparr>\<rparr>"
    and du: "decoded_upto fo buf p (p + 74)
            [''manufacturer_id'', ''model_number'', ''version_letter'', ''version_number'',
             ''serial_number'', ''start_selector'', ''template_id'']
            \<lparr>teds = h, bitstream = \<lparr>bits = buf, pos = p + 74\<rparr>\<rparr>"
    and tid: "map_of h ''template_id''
            = Some (UnIntTedsElement 8 (Some (int (uint_be (rev (take 8 (drop (p + 66) buf)))))))"
    and mid: "map_of h ''manufacturer_id''
            = Some (UnIntTedsElement 14 (Some (int (uint_be (rev (take 14 (drop p buf)))))))"
    by blast
  from du have ks: "map fst h
      = [''manufacturer_id'', ''model_number'', ''version_letter'', ''version_number'',
         ''serial_number'', ''start_selector'', ''template_id'']"
    by (simp add: decoded_upto_def)
  have "''version_number'' \<in> set (map fst h)" by (simp only: ks) simp
  from getitem_present [OF this] obtain e where vn: "getitem h ''version_number'' = Inr e"
    by blast
  have "before_trailer fo \<lparr>bits = buf, pos = p\<rparr> False
      = load_template fo (Some (int (uint_be (rev (take 8 (drop (p + 66) buf))))))
          \<lparr>teds = h, bitstream = \<lparr>bits = buf, pos = p + 74\<rparr>\<rparr>"
    using h vn tid by (simp add: before_trailer_def check_basic_teds_def getitem_def)
  with du mid show ?thesis by blast
qed

text \<open>The trailer: six fields of fixed width, then the user data, which takes what is left.\<close>

lemma trailer_loop:
  assumes room: "pos s + 57 \<le> length (bits s)"
  shows "\<exists>fx. process_loop fo
            [(''calibration_date'', DateTedsElement 16 None),
             (''calibration_initals'', Chr5TedsElement 15 (Some [])),
             (''calibration_period'', UnIntTedsElement 12 None),
             (''measurement_location_id'', UnIntTedsElement 11 None),
             (''end_selector'', UnIntTedsElement 2 None),
             (''extended_end_selector'', UnIntTedsElement 1 None),
             (''user_data'', AsciiTedsElement (-1) (Some []))] s
          = Inr (fx @ [(''user_data'', AsciiTedsElement (-1)
                          (Some (Ascii_from_bits (drop (pos s + 57) (bits s)))))],
                 s\<lparr>pos := length (bits s)\<rparr>)
        \<and> map fst fx = [''calibration_date'', ''calibration_initals'', ''calibration_period'',
             ''measurement_location_id'', ''end_selector'', ''extended_end_selector'']
        \<and> (\<forall>out. write_loop fo fx out = Inr (out @ take 57 (drop (pos s) (bits s))))"
proof -
  let ?six = "[(''calibration_date'', DateTedsElement 16 None),
             (''calibration_initals'', Chr5TedsElement 15 (Some [])),
             (''calibration_period'', UnIntTedsElement 12 None),
             (''measurement_location_id'', UnIntTedsElement 11 None),
             (''end_selector'', UnIntTedsElement 2 None),
             (''extended_end_selector'', UnIntTedsElement 1 None)]"
  let ?s1 = "s\<lparr>pos := pos s + 57\<rparr>"
  have tb: "total_bits ?six = 57" by simp
  have ff: "\<forall>kv\<in>set ?six. fixed_field (snd kv)" by simp
  have rm: "pos s + total_bits ?six \<le> length (bits s)" using room by simp
  have re: "fields_reencode fo ?six (drop (pos s) (bits s))" by simp
  from process_loop_fixed [OF ff rm re] obtain fx where
    fx: "process_loop fo ?six s = Inr (fx, ?s1)"
        "map fst fx = map fst ?six"
        "\<forall>out. write_loop fo fx out = Inr (out @ take 57 (drop (pos s) (bits s)))"
    unfolding tb by blast
  have "pos ?s1 \<le> length (bits ?s1)" using room by simp
  from read_rest [OF this]
  have "read (int (length (bits ?s1)) - int (pos ?s1)) ?s1
      = Inr (drop (pos s + 57) (bits s), s\<lparr>pos := length (bits s)\<rparr>)" by simp
  then have ud: "process_loop fo [(''user_data'', AsciiTedsElement (-1) (Some []))] ?s1
      = Inr ([(''user_data'', AsciiTedsElement (-1)
                 (Some (Ascii_from_bits (drop (pos s + 57) (bits s)))))],
             s\<lparr>pos := length (bits s)\<rparr>)"
    by simp
  have "process_loop fo (?six @ [(''user_data'', AsciiTedsElement (-1) (Some []))]) s
      = Inr (fx @ [(''user_data'', AsciiTedsElement (-1)
                      (Some (Ascii_from_bits (drop (pos s + 57) (bits s)))))],
             s\<lparr>pos := length (bits s)\<rparr>)"
    by (simp only: process_loop_append fx(1) ud bindE_simps prod.case)
  moreover have "map fst fx = [''calibration_date'', ''calibration_initals'',
      ''calibration_period'', ''measurement_location_id'', ''end_selector'',
      ''extended_end_selector'']"
    using fx(2) by simp
  ultimately show ?thesis using fx(3) by simp
qed

lemma map_of_dict_update_snoc:
  "map_of (dict_update d (td @ [(k, v)])) k = Some v"
  by (simp add: dict_update_snoc update_conv')

lemma end_template_ok:
  assumes room: "pos (bitstream st) + 57 \<le> length (bits (bitstream st))"
  shows "\<exists>st'. end_template fo st = Inr st'
          \<and> getitem (teds st') ''user_data''
              = Inr (AsciiTedsElement (-1) (Some (Ascii_from_bits
                  (drop (pos (bitstream st) + 57) (bits (bitstream st))))))
          \<and> bitstream st' = (bitstream st)\<lparr>pos := length (bits (bitstream st))\<rparr>"
proof -
  from trailer_loop [OF room, of fo] obtain fx where
    "process_loop fo
            [(''calibration_date'', DateTedsElement 16 None),
             (''calibration_initals'', Chr5TedsElement 15 (Some [])),
             (''calibration_period'', UnIntTedsElement 12 None),
             (''measurement_location_id'', UnIntTedsElement 11 None),
             (''end_selector'', UnIntTedsElement 2 None),
             (''extended_end_selector'', UnIntTedsElement 1 None),
             (''user_data'', AsciiTedsElement (-1) (Some []))] (bitstream st)
          = Inr (fx @ [(''user_data'', AsciiTedsElement (-1)
                   (Some (Ascii_from_bits (drop (pos (bitstream st) + 57) (bits (bitstream st))))))],
                 (bitstream st)\<lparr>pos := length (bits (bitstream st))\<rparr>)"
    by blast
  then show ?thesis
    by (simp add: end_template_def process_def getitem_def map_of_dict_update_snoc
          del: process_loop.simps)
qed

lemma end_template_decoded:
  assumes du: "decoded_upto fo buf p q ks st"
    and room: "q + 57 \<le> length buf"
    and dj: "set [''calibration_date'', ''calibration_initals'', ''calibration_period'',
               ''measurement_location_id'', ''end_selector'', ''extended_end_selector'',
               ''user_data''] \<inter> set ks = {}"
  shows "\<exists>st'. end_template fo st = Inr st'
          \<and> bitstream st' = \<lparr>bits = buf, pos = length buf\<rparr>
          \<and> map fst (teds st') = ks @ [''calibration_date'', ''calibration_initals'',
               ''calibration_period'', ''measurement_location_id'', ''end_selector'',
               ''extended_end_selector'', ''user_data'']
          \<and> (\<forall>out. write_loop fo (teds st') out
                = Inr (out @ take (q + 57 + 7 * ((length buf - (q + 57)) div 7) - p)
                               (drop p buf)))"
proof -
  let ?s = "\<lparr>bits = buf, pos = q\<rparr>"
  let ?rest = "drop (q + 57) buf"
  let ?ud = "(''user_data'', AsciiTedsElement (-1) (Some (Ascii_from_bits ?rest)))"
  from du have bs: "bitstream st = ?s" and pq: "p \<le> q" and ks: "map fst (teds st) = ks"
    and wr: "\<And>out. write_loop fo (teds st) out = Inr (out @ take (q - p) (drop p buf))"
    by (simp_all add: decoded_upto_def)
  have "pos ?s + 57 \<le> length (bits ?s)" using room by simp
  from trailer_loop [OF this, of fo] obtain fx where
    fx: "process_loop fo
            [(''calibration_date'', DateTedsElement 16 None),
             (''calibration_initals'', Chr5TedsElement 15 (Some [])),
             (''calibration_period'', UnIntTedsElement 12 None),
             (''measurement_location_id'', UnIntTedsElement 11 None),
             (''end_selector'', UnIntTedsElement 2 None),
             (''extended_end_selector'', UnIntTedsElement 1 None),
             (''user_data'', AsciiTedsElement (-1) (Some []))] ?s
          = Inr (fx @ [(''user_data'', AsciiTedsElement (-1)
                          (Some (Ascii_from_bits (drop (pos ?s + 57) (bits ?s)))))],
                 ?s\<lparr>pos := length (bits ?s)\<rparr>)"
      "map fst fx = [''calibration_date'', ''calibration_initals'', ''calibration_period'',
             ''measurement_location_id'', ''end_selector'', ''extended_end_selector'']"
      "\<forall>out. write_loop fo fx out = Inr (out @ take 57 (drop (pos ?s) (bits ?s)))"
    by (elim exE conjE) (rule that; assumption)
  from fx(3) have fxw: "\<And>out. write_loop fo fx out = Inr (out @ take 57 (drop q buf))" by simp
  have dk: "distinct (map fst (fx @ [?ud]))" by (simp add: fx(2))
  have "fst ` set (fx @ [?ud]) = set (map fst (fx @ [?ud]))" by (metis set_map)
  moreover have "fst ` set (teds st) = set ks" using ks by (metis set_map)
  ultimately have "fst ` set (fx @ [?ud]) \<inter> fst ` set (teds st) = {}"
    using dj by (simp add: fx(2))
  from dict_update_append [OF dk this]
  have upd: "dict_update (teds st) (fx @ [?ud]) = teds st @ fx @ [?ud]" by simp
  let ?st' = "\<lparr>teds = teds st @ fx @ [?ud], bitstream = ?s\<lparr>pos := length buf\<rparr>\<rparr>"
  have 1: "end_template fo st = Inr ?st'"
    using fx(1) bs upd by (simp add: end_template_def process_def del: process_loop.simps)
  from Ascii_from_bits_total [of ?rest]
  have enc: "Ascii_to_bits (Ascii_from_bits ?rest) = take (7 * (length ?rest div 7)) ?rest"
    by simp
  have "write_loop fo (teds ?st') out
      = Inr (out @ take (q + 57 + 7 * ((length buf - (q + 57)) div 7) - p) (drop p buf))" for out
  proof -
    let ?k = "7 * ((length buf - (q + 57)) div 7)"
    have a: "write_loop fo (teds ?st') out
        = Inr (out @ ((take (q - p) (drop p buf) @ take 57 (drop q buf)) @ take ?k ?rest))"
      using wr fxw enc by (simp add: write_loop_append)
    have b: "take (q - p + 57 + ?k) (drop p buf)
        = (take (q - p) (drop p buf) @ take 57 (drop q buf)) @ take ?k ?rest"
      using pq by (simp only: take_add drop_drop) (simp add: add.commute)
    have c: "q + 57 + ?k - p = q - p + 57 + ?k" using pq by simp
    show ?thesis by (simp only: a b [symmetric] c)
  qed
  then have "\<forall>out. write_loop fo (teds ?st') out
      = Inr (out @ take (q + 57 + 7 * ((length buf - (q + 57)) div 7) - p) (drop p buf))"
    by (rule allI)
  moreover have "bitstream ?st' = \<lparr>bits = buf, pos = length buf\<rparr>" by simp
  moreover have "map fst (teds ?st') = ks @ [''calibration_date'', ''calibration_initals'',
               ''calibration_period'', ''measurement_location_id'', ''end_selector'',
               ''extended_end_selector'', ''user_data'']"
    using ks fx(2) by simp
  ultimately show ?thesis using 1 by (intro exI [of _ ?st'] conjI)
qed

text \<open>The basic accelerometer stream, up to the trailer.\<close>

lemma before_trailer_accel:
  assumes st: "accel_basic_stream buf p" and sc: "scaled_reencode fo buf p"
  shows "\<exists>st1. before_trailer fo \<lparr>bits = buf, pos = p\<rparr> False = Inr st1
          \<and> decoded_upto fo buf p (p + 123)
            [''manufacturer_id'', ''model_number'', ''version_letter'', ''version_number'',
             ''serial_number'', ''start_selector'', ''template_id'',
             ''acceleration_force'', ''extended_functionality'', ''sens_ref'', ''tf_hp_s'',
             ''direction'', ''transducer_weight'', ''elec_sig_type'', ''map_method'',
             ''ACDCCoupling'', ''sign'', ''transfer_function'', ''ref_req'', ''ref_temp''] st1"
proof -
  from st have room: "p + 180 \<le> length buf"
    and tid: "uint_be (rev (take 8 (drop (p + 66) buf))) = 25"
    and af: "\<not> buf ! (p + 74)" and ef: "\<not> buf ! (p + 75)" and tf: "\<not> buf ! (p + 109)"
    by (simp_all add: accel_basic_stream_def)
  from sc have
    r1: "reencodes fo (ConRelResTedsElement 16 0.0000005 0.00015 None)
               (take 16 (drop (p + 76) buf))"
    and r2: "reencodes fo (ConRelResTedsElement 8 0.005 0.03 None) (take 8 (drop (p + 92) buf))"
    and r3: "reencodes fo (ConRelResTedsElement 6 0.1 0.1 None) (take 6 (drop (p + 102) buf))"
    and r4: "reencodes fo (ConRelResTedsElement 8 0.35 0.0175 None)
               (take 8 (drop (p + 110) buf))"
    and r5: "reencodes fo (ConResTedsElement 5 15 0.5 None) (take 5 (drop (p + 118) buf))"
    by (simp_all add: scaled_reencode_def)
  have "p + 74 \<le> length buf" using room by simp
  from before_trailer_header [OF this, of fo] obtain h where
    bt0: "before_trailer fo \<lparr>bits = buf, pos = p\<rparr> False
            = load_template fo (Some (int (uint_be (rev (take 8 (drop (p + 66) buf))))))
                \<lparr>teds = h, bitstream = \<lparr>bits = buf, pos = p + 74\<rparr>\<rparr>"
    and du: "decoded_upto fo buf p (p + 74)
            [''manufacturer_id'', ''model_number'', ''version_letter'', ''version_number'',
             ''serial_number'', ''start_selector'', ''template_id'']
            \<lparr>teds = h, bitstream = \<lparr>bits = buf, pos = p + 74\<rparr>\<rparr>"
    by blast
  from bt0 tid have
    bt: "before_trailer fo \<lparr>bits = buf, pos = p\<rparr> False
            = load_template fo (Some 25) \<lparr>teds = h, bitstream = \<lparr>bits = buf, pos = p + 74\<rparr>\<rparr>"
    by simp
  have "p + 123 \<le> length buf" using room by simp
  from accel_basic [OF this du af ef tf r1 r2 r3 r4 r5] obtain st1 where
    a: "accelerometer_force_template fo
          \<lparr>teds = h, bitstream = \<lparr>bits = buf, pos = p + 74\<rparr>\<rparr> = Inr st1"
    and du1: "decoded_upto fo buf p (p + 123)
            [''manufacturer_id'', ''model_number'', ''version_letter'', ''version_number'',
             ''serial_number'', ''start_selector'', ''template_id'',
             ''acceleration_force'', ''extended_functionality'', ''sens_ref'', ''tf_hp_s'',
             ''direction'', ''transducer_weight'', ''elec_sig_type'', ''map_method'',
             ''ACDCCoupling'', ''sign'', ''transfer_function'', ''ref_req'', ''ref_temp''] st1"
    by blast
  have "before_trailer fo \<lparr>bits = buf, pos = p\<rparr> False = Inr st1"
    using bt a by (simp add: load_template_def)
  with du1 show ?thesis by blast
qed

text \<open>The basic accelerometer stream, decoded and written back.\<close>

lemma accel_decode:
  assumes st: "accel_basic_stream buf p" and sc: "scaled_reencode fo buf p"
  shows "\<exists>st. StandardTeds_init fo \<lparr>bits = buf, pos = p\<rparr> False = Inr st
          \<and> (\<forall>out. write_loop fo (teds st) out
                = Inr (out @ take (180 + 7 * ((length buf - (p + 180)) div 7)) (drop p buf)))"
proof -
  from st have room: "p + 180 \<le> length buf" by (simp add: accel_basic_stream_def)
  from before_trailer_accel [OF st sc] obtain st1 where
    bt1: "before_trailer fo \<lparr>bits = buf, pos = p\<rparr> False = Inr st1"
    and du1: "decoded_upto fo buf p (p + 123)
            [''manufacturer_id'', ''model_number'', ''version_letter'', ''version_number'',
             ''serial_number'', ''start_selector'', ''template_id'',
             ''acceleration_force'', ''extended_functionality'', ''sens_ref'', ''tf_hp_s'',
             ''direction'', ''transducer_weight'', ''elec_sig_type'', ''map_method'',
             ''ACDCCoupling'', ''sign'', ''transfer_function'', ''ref_req'', ''ref_temp''] st1"
    by blast
  have "p + 123 + 57 \<le> length buf" using room by simp
  moreover have "set [''calibration_date'', ''calibration_initals'', ''calibration_period'',
               ''measurement_location_id'', ''end_selector'', ''extended_end_selector'',
               ''user_data'']
      \<inter> set [''manufacturer_id'', ''model_number'', ''version_letter'', ''version_number'',
             ''serial_number'', ''start_selector'', ''template_id'',
             ''acceleration_force'', ''extended_functionality'', ''sens_ref'', ''tf_hp_s'',
             ''direction'', ''transducer_weight'', ''elec_sig_type'', ''map_method'',
             ''ACDCCoupling'', ''sign'', ''transfer_function'', ''ref_req'', ''ref_temp''] = {}"
    by simp
  ultimately obtain st2 where
    e: "end_template fo st1 = Inr st2"
    and w: "\<forall>out. write_loop fo (teds st2) out
                = Inr (out @ take (p + 123 + 57 + 7 * ((length buf - (p + 123 + 57)) div 7) - p)
                               (drop p buf))"
    using end_template_decoded [OF du1] by blast
  have "StandardTeds_init fo \<lparr>bits = buf, pos = p\<rparr> False = Inr st2"
    using bt1 e by (simp add: init_split)
  moreover have "p + 123 + 57 + 7 * ((length buf - (p + 123 + 57)) div 7) - p
      = 180 + 7 * ((length buf - (p + 180)) div 7)" by simp
  ultimately show ?thesis using w by simp
qed

text \<open>A template other than 25 and 36 leaves the document as it is.\<close>

lemma load_template_other:
  "t \<noteq> 25 \<Longrightarrow> t \<noteq> 36 \<Longrightarrow> load_template fo (Some t) st = Inr st"
  by (simp add: load_template_def)

text \<open>The force branches: the selector bit 74 is 1.\<close>

lemma force_branch:
  assumes room: "p + 76 \<le> length buf"
    and du: "decoded_upto fo buf p (p + 74)
            [''manufacturer_id'', ''model_number'', ''version_letter'', ''version_number'',
             ''serial_number'', ''start_selector'', ''template_id''] st"
    and af: "buf ! (p + 74)"
  shows "accelerometer_force_template fo st = Inl NotImplementedError"
proof -
  let ?hk = "[''manufacturer_id'', ''model_number'', ''version_letter'', ''version_number'',
             ''serial_number'', ''start_selector'', ''template_id'']"
  let ?t1 = "[(''acceleration_force'', UnIntTedsElement 1 None),
              (''extended_functionality'', UnIntTedsElement 1 None)]"
  from du have ks0: "map fst (teds st) = ?hk" by (simp add: decoded_upto_def)
  have ff1: "\<forall>kv\<in>set ?t1. fixed_field (snd kv)" by simp
  have rm1: "p + 74 + total_bits ?t1 \<le> length buf" using room by simp
  have dk1: "distinct (map fst ?t1)" by simp
  have dj1: "set (map fst ?t1) \<inter> set ?hk = {}" by simp
  have tb1: "p + 74 + total_bits ?t1 = p + 76" by simp
  have re1: "fields_reencode fo ?t1 (drop (p + 74) buf)" by simp
  from process_fixed [OF ff1 du rm1 dk1 dj1 re1] obtain d1 where
    d1: "process fo ?t1 st = Inr \<lparr>teds = teds st @ d1, bitstream = \<lparr>bits = buf, pos = p + 76\<rparr>\<rparr>"
        "process_loop fo ?t1 \<lparr>bits = buf, pos = p + 74\<rparr> = Inr (d1, \<lparr>bits = buf, pos = p + 76\<rparr>)"
    unfolding tb1 by blast
  let ?s1 = "\<lparr>teds = teds st @ d1, bitstream = \<lparr>bits = buf, pos = p + 76\<rparr>\<rparr>"
  have "process_loop fo ([] @ (''acceleration_force'', UnIntTedsElement 1 None)
          # [(''extended_functionality'', UnIntTedsElement 1 None)]) \<lparr>bits = buf, pos = p + 74\<rparr>
        = Inr (d1, \<lparr>bits = buf, pos = p + 76\<rparr>)"
    using d1(2) by simp
  then have "\<exists>e. getitem (teds st @ d1) ''acceleration_force'' = Inr e
      \<and> val_int e = Some (if buf ! (p + 74) then 1 else 0)"
  proof (rule val_bit_gen [where r = "p + 74"])
  qed (use room ks0 in simp_all)
  with af obtain e1 where
    e1: "getitem (teds st @ d1) ''acceleration_force'' = Inr e1" "val_int e1 = Some 1"
    by auto
  have "process_loop fo ([(''acceleration_force'', UnIntTedsElement 1 None)]
          @ (''extended_functionality'', UnIntTedsElement 1 None) # [])
          \<lparr>bits = buf, pos = p + 74\<rparr>
        = Inr (d1, \<lparr>bits = buf, pos = p + 76\<rparr>)"
    using d1(2) by simp
  then have "\<exists>e. getitem (teds st @ d1) ''extended_functionality'' = Inr e
      \<and> val_int e = Some (if buf ! (p + 75) then 1 else 0)"
  proof (rule val_bit_gen [where r = "p + 75"])
  qed (use room ks0 in simp_all)
  then obtain e2 where
    e2: "getitem (teds st @ d1) ''extended_functionality'' = Inr e2"
        "val_int e2 = Some 0 \<or> val_int e2 = Some 1"
    by auto
  have "accelerometer_force_branch fo ?s1 = Inl NotImplementedError"
    using e1 e2 by (auto simp: accelerometer_force_branch_def force_no_ext_template_def
        force_ext_template_def)
  with d1(1) show ?thesis by (simp add: accelerometer_force_template_def)
qed

section \<open>What a template leaves untouched\<close>

lemma process_loop_keys:
  "process_loop fo td s = Inr (td', s') \<Longrightarrow> map fst td' = map fst td"
proof (induction td arbitrary: s td' s')
  case Nil
  then show ?case by auto
next
  case (Cons kv td)
  obtain k e where kv: "kv = (k, e)" by (cases kv)
  from Cons.prems obtain s1 e' td1 s2 where
    "process_loop fo td s1 = Inr (td1, s2)" "td' = (k, e') # td1"
    by (auto simp: kv bindE_Inr)
  with Cons.IH [of s1 td1 s2] show ?case by (simp add: kv)
qed

lemma dict_update_other:
  "k \<notin> fst ` set td \<Longrightarrow> map_of (dict_update d td) k = map_of d k"
proof (induction td arbitrary: d)
  case Nil
  then show ?case by (simp add: dict_update_def)
next
  case (Cons kv td)
  have "dict_update d (kv # td) = dict_update (AList.update (fst kv) (snd kv) d) td"
    by (simp add: dict_update_def)
  with Cons show ?case by (simp add: update_conv')
qed

lemma process_preserves:
  assumes "process fo td st = Inr st'" "k \<notin> set (map fst td)"
  shows "map_of (teds st') k = map_of (teds st) k"
proof -
  from assms(1) obtain td' s' where
    pl: "process_loop fo td (bitstream st) = Inr (td', s')"
    and st': "st' = \<lparr>teds = dict_update (teds st) td', bitstream = s'\<rparr>"
    by (auto simp: process_def bindE_Inr)
  from process_loop_keys [OF pl] assms(2) have "k \<notin> fst ` set td'" by (metis set_map)
  with st' show ?thesis by (simp add: dict_update_other)
qed

lemma accelerometer_force_preserves:
  assumes "accelerometer_force_template fo st = Inr st'"
  shows "map_of (teds st') ''manufacturer_id'' = map_of (teds st) ''manufacturer_id''"
proof -
  from assms obtain s1 s2 s3 tf s4 where
    1: "process fo [(''acceleration_force'', UnIntTedsElement 1 None),
               (''extended_functionality'', UnIntTedsElement 1 None)] st = Inr s1"
    and 2: "accelerometer_force_branch fo s1 = Inr s2"
    and 3: "process fo [(''direction'', UnIntTedsElement 2 None),
               (''transducer_weight'', ConRelResTedsElement 6 0.1 0.1 None),
               (''elec_sig_type'', ConstantTedsElement 0 (Some ''Voltage Sensor'')),
               (''map_method'', ConstantTedsElement 0 (Some ''Linear'')),
               (''ACDCCoupling'', ConstantTedsElement 0 (Some ''AC'')),
               (''sign'', UnIntTedsElement 1 None),
               (''transfer_function'', UnIntTedsElement 1 None)] s2 = Inr s3"
    and 4: "(if val_int tf = Some 1 then transfer_function_template fo s3 else Inr s3) = Inr s4"
    and 5: "process fo [(''ref_req'', ConRelResTedsElement 8 0.35 0.0175 None),
          (''ref_temp'', ConResTedsElement 5 15 0.5 None)] s4 = Inr st'"
    unfolding accelerometer_force_template_def bindE_Inr by blast
  let ?k = "''manufacturer_id''"
  from process_preserves [OF 1, of ?k] have a: "map_of (teds s1) ?k = map_of (teds st) ?k"
    by simp
  from 2 have b: "map_of (teds s2) ?k = map_of (teds s1) ?k"
  proof -
    from 2 consider
      "accelerometer_no_ext_template fo s1 = Inr s2" | "accelerometer_ext_template fo s1 = Inr s2"
      by (auto simp: accelerometer_force_branch_def bindE_Inr force_no_ext_template_def
          force_ext_template_def split: if_splits)
    then show ?thesis
    proof cases
      case 1
      then show ?thesis
        unfolding accelerometer_no_ext_template_def by (rule process_preserves) simp
    next
      case 2
      then show ?thesis
        unfolding accelerometer_ext_template_def by (rule process_preserves) simp
    qed
  qed
  from process_preserves [OF 3, of ?k] have c: "map_of (teds s3) ?k = map_of (teds s2) ?k"
    by simp
  have d: "map_of (teds s4) ?k = map_of (teds s3) ?k"
  proof (cases "val_int tf = Some 1")
    case True
    with 4 have "transfer_function_template fo s3 = Inr s4" by simp
    then show ?thesis
      unfolding transfer_function_template_def by (rule process_preserves) simp
  next
    case False
    with 4 show ?thesis by simp
  qed
  from process_preserves [OF 5, of ?k] have e: "map_of (teds st') ?k = map_of (teds s4) ?k"
    by simp
  from a b c d e show ?thesis by simp
qed

lemma load_template_preserves:
  assumes "load_template fo t st = Inr st'"
  shows "map_of (teds st') ''manufacturer_id'' = map_of (teds st) ''manufacturer_id''"
proof -
  consider "t = Some 25" | "t \<noteq> Some 25" "t = Some 36" | "t \<noteq> Some 25" "t \<noteq> Some 36"
    by blast
  then show ?thesis
  proof cases
    case 1
    with assms have "accelerometer_force_template fo st = Inr st'"
      by (simp add: load_template_def)
    then show ?thesis by (rule accelerometer_force_preserves)
  next
    case 2
    with assms have "thermocouple_template fo st = Inr st'" by (simp add: load_template_def)
    then show ?thesis unfolding thermocouple_template_def by (rule process_preserves) simp
  next
    case 3
    with assms show ?thesis by (simp add: load_template_def)
  qed
qed

lemma init_manufacturer_id:
  assumes room: "p + 74 \<le> length buf"
    and ok: "StandardTeds_init fo \<lparr>bits = buf, pos = p\<rparr> False = Inr st"
  shows "getitem (teds st) ''manufacturer_id''
           = Inr (UnIntTedsElement 14 (Some (int (uint_be (rev (take 14 (drop p buf)))))))"
proof -
  from before_trailer_header [OF room, of fo] obtain h where
    bt: "before_trailer fo \<lparr>bits = buf, pos = p\<rparr> False
            = load_template fo (Some (int (uint_be (rev (take 8 (drop (p + 66) buf))))))
                \<lparr>teds = h, bitstream = \<lparr>bits = buf, pos = p + 74\<rparr>\<rparr>"
    and mid: "map_of h ''manufacturer_id''
            = Some (UnIntTedsElement 14 (Some (int (uint_be (rev (take 14 (drop p buf)))))))"
    by blast
  from ok obtain st1 where
    l: "load_template fo (Some (int (uint_be (rev (take 8 (drop (p + 66) buf))))))
          \<lparr>teds = h, bitstream = \<lparr>bits = buf, pos = p + 74\<rparr>\<rparr> = Inr st1"
    and e: "end_template fo st1 = Inr st"
    unfolding init_split bt bindE_Inr by blast
  from load_template_preserves [OF l] mid
  have "map_of (teds st1) ''manufacturer_id''
      = Some (UnIntTedsElement 14 (Some (int (uint_be (rev (take 14 (drop p buf)))))))"
    by simp
  moreover from e have "map_of (teds st) ''manufacturer_id'' = map_of (teds st1) ''manufacturer_id''"
    unfolding end_template_def by (rule process_preserves) simp
  ultimately show ?thesis by (simp add: getitem_def)
qed

section \<open>The errors of a decoding without preamble\<close>

lemma bindE_Inl: "bindE m f = Inl e \<longleftrightarrow> m = Inl e \<or> (\<exists>x. m = Inr x \<and> f x = Inl e)"
  by (cases m) simp_all

lemma Chr5_loop_err: "Chr5_loop k bs acc = Inl e \<Longrightarrow> e = ReadError"
  by (induction k arbitrary: bs acc) (auto simp: Let_def split: if_splits)

lemma from_bits_err:
  "from_bits fo e b = Inl err \<Longrightarrow> err \<noteq> ValueError ''Preamble does not match the default''"
proof (cases e)
  case (Chr5TedsElement l v)
  assume "from_bits fo e b = Inl err"
  with Chr5TedsElement have "Chr5_from_bits b = Inl err" by (auto simp: bindE_Inl)
  then have "err = ReadError" unfolding Chr5_from_bits_def by (rule Chr5_loop_err)
  then show ?thesis by simp
next
  case (DateTedsElement l v)
  assume "from_bits fo e b = Inl err"
  with DateTedsElement show ?thesis
    by (auto simp: bindE_Inl datetime_add_days_def split: if_splits)
next
  case (ConRelResTedsElement l start step v)
  assume "from_bits fo e b = Inl err"
  with ConRelResTedsElement show ?thesis by (auto split: option.splits)
qed auto

lemma read_err:
  "read n s = Inl err \<Longrightarrow> err \<noteq> ValueError ''Preamble does not match the default''"
  by (auto simp: read_def split: if_splits)

lemma process_loop_err:
  "process_loop fo td s = Inl err \<Longrightarrow> err \<noteq> ValueError ''Preamble does not match the default''"
proof (induction td arbitrary: s)
  case Nil
  then show ?case by simp
next
  case (Cons kv td)
  obtain k e where kv: "kv = (k, e)" by (cases kv)
  from Cons.prems consider
    "read (int (length (bits s)) - int (pos s)) s = Inl err" | "read (len e) s = Inl err"
    | b where "from_bits fo e b = Inl err" | s1 where "process_loop fo td s1 = Inl err"
    by (auto simp: kv bindE_Inl split: if_splits)
  then show ?case
  proof cases
    case 1
    then show ?thesis by (rule read_err)
  next
    case 2
    then show ?thesis by (rule read_err)
  next
    case 3
    then show ?thesis by (rule from_bits_err)
  next
    case 4
    then show ?thesis by (rule Cons.IH)
  qed
qed

lemma process_err:
  "process fo td st = Inl err \<Longrightarrow> err \<noteq> ValueError ''Preamble does not match the default''"
  by (auto simp: process_def bindE_Inl dest: process_loop_err)

lemma accelerometer_force_err:
  assumes "accelerometer_force_template fo st = Inl err"
  shows "err \<noteq> ValueError ''Preamble does not match the default''"
proof -
  from assms consider
    td s where "process fo td s = Inl err"
    | s where "accelerometer_force_branch fo s = Inl err"
    | d k where "getitem d k = Inl err"
    | s where "transfer_function_template fo s = Inl err"
    unfolding accelerometer_force_template_def bindE_Inl by (auto split: if_splits)
  then show ?thesis
  proof cases
    case 1
    then show ?thesis by (rule process_err)
  next
    case 2
    then show ?thesis
      by (auto simp: accelerometer_force_branch_def bindE_Inl getitem_def
          accelerometer_no_ext_template_def accelerometer_ext_template_def
          force_no_ext_template_def force_ext_template_def
          split: if_splits option.splits dest: process_err)
  next
    case 3
    then show ?thesis by (auto simp: getitem_def split: option.splits)
  next
    case 4
    then show ?thesis
      unfolding transfer_function_template_def by (rule process_err)
  qed
qed

lemma init_no_preamble_error:
  "StandardTeds_init fo s False \<noteq> Inl (ValueError ''Preamble does not match the default'')"
proof
  let ?e = "ValueError ''Preamble does not match the default''"
  assume "StandardTeds_init fo s False = Inl ?e"
  then consider
    td st where "process fo td st = Inl ?e"
    | st where "check_basic_teds st = Inl ?e"
    | d k where "getitem d k = Inl ?e"
    | t st where "load_template fo t st = Inl ?e"
    | st where "end_template fo st = Inl ?e"
    unfolding StandardTeds_init_def bindE_Inl by auto
  then show False
  proof cases
    case 1
    from process_err [OF this] show ?thesis by simp
  next
    case 2
    then show ?thesis
      by (auto simp: check_basic_teds_def bindE_Inl getitem_def split: option.splits)
  next
    case 3
    then show ?thesis by (auto simp: getitem_def split: option.splits)
  next
    case 4
    then consider "accelerometer_force_template fo st = Inl ?e"
      | "thermocouple_template fo st = Inl ?e"
      by (auto simp: load_template_def split: if_splits)
    then show ?thesis
    proof cases
      case 1
      from accelerometer_force_err [OF this] show ?thesis by simp
    next
      case 2
      then have "?e \<noteq> ?e" unfolding thermocouple_template_def by (rule process_err)
      then show ?thesis by simp
    qed
  next
    case 5
    then have "?e \<noteq> ?e" unfolding end_template_def by (rule process_err)
    then show ?thesis by simp
  qed
qed

section \<open>Decoding a file and writing it back\<close>

lemma length_file_bytes [simp]: "length (file_bytes xs) = length xs"
  by (simp add: file_bytes_def)

lemma take_file_bytes: "take n (file_bytes xs) = file_bytes (take n xs)"
  by (simp add: file_bytes_def take_map)

lemma write_loop_prefix: "write_loop fo d out = Inr out' \<Longrightarrow> take (length out) out' = out"
proof (induction d arbitrary: out)
  case Nil
  then show ?case by simp
next
  case (Cons kv d)
  obtain k e where kv: "kv = (k, e)" by (cases kv)
  show ?case
  proof (cases "is_Constant e")
    case True
    with Cons.prems kv have "write_loop fo d out = Inr out'" by simp
    then show ?thesis by (rule Cons.IH)
  next
    case False
    with Cons.prems kv obtain b where "write_loop fo d (out @ b) = Inr out'"
      by (auto simp: bindE_Inr)
    from Cons.IH [OF this] have "take (length out + length b) out' = out @ b" by simp
    then have "take (length out) (take (length out + length b) out') = out" by simp
    then show ?thesis by (simp add: min_def)
  qed
qed


lemma roundtrip_no_preamble:
  assumes st: "accel_basic_stream bs 0" and sc: "scaled_reencode fo bs 0"
  shows "decode_encode fo bs False
           = Inr (file_bytes (ni_preamble @ take (180 + 7 * ((length bs - 180) div 7)) bs))"
proof -
  from accel_decode [OF st sc] obtain d where
    d: "StandardTeds_init fo \<lparr>bits = bs, pos = 0\<rparr> False = Inr d"
    and w: "\<forall>out. write_loop fo (teds d) out
              = Inr (out @ take (180 + 7 * ((length bs - (0 + 180)) div 7)) (drop 0 bs))"
    by blast
  from w have "write_loop fo (teds d) ni_preamble
      = Inr (ni_preamble @ take (180 + 7 * ((length bs - 180) div 7)) bs)" by simp
  with d show ?thesis
    by (simp add: decode_encode_def decode_def write_to_file_def write_teds_to_file_def)
qed

lemma scaled_reencode_exact: "p + 123 \<le> length buf \<Longrightarrow> scaled_reencode exact_arith buf p"
  unfolding scaled_reencode_def by (intro conjI rt_ConRelRes rt_ConRes) simp_all

text \<open>The other paths of the constructor.\<close>

lemma init_force:
  assumes room: "p + 76 \<le> length buf"
    and tid: "uint_be (rev (take 8 (drop (p + 66) buf))) = 25"
    and af: "buf ! (p + 74)"
  shows "StandardTeds_init fo \<lparr>bits = buf, pos = p\<rparr> False = Inl NotImplementedError"
proof -
  have "p + 74 \<le> length buf" using room by simp
  from before_trailer_header [OF this, of fo] obtain h where
    bt0: "before_trailer fo \<lparr>bits = buf, pos = p\<rparr> False
            = load_template fo (Some (int (uint_be (rev (take 8 (drop (p + 66) buf))))))
                \<lparr>teds = h, bitstream = \<lparr>bits = buf, pos = p + 74\<rparr>\<rparr>"
    and du: "decoded_upto fo buf p (p + 74)
            [''manufacturer_id'', ''model_number'', ''version_letter'', ''version_number'',
             ''serial_number'', ''start_selector'', ''template_id'']
            \<lparr>teds = h, bitstream = \<lparr>bits = buf, pos = p + 74\<rparr>\<rparr>"
    by blast
  from force_branch [OF room du af] bt0 tid
  have "before_trailer fo \<lparr>bits = buf, pos = p\<rparr> False = Inl NotImplementedError"
    by (simp add: load_template_def)
  then show ?thesis by (simp add: init_split)
qed

lemma init_unknown:
  assumes room: "p + 131 \<le> length buf"
    and t25: "uint_be (rev (take 8 (drop (p + 66) buf))) \<noteq> 25"
    and t36: "uint_be (rev (take 8 (drop (p + 66) buf))) \<noteq> 36"
  shows "\<exists>st. StandardTeds_init fo \<lparr>bits = buf, pos = p\<rparr> False = Inr st
          \<and> bitstream st = \<lparr>bits = buf, pos = length buf\<rparr>
          \<and> map fst (teds st) =
              [''manufacturer_id'', ''model_number'', ''version_letter'', ''version_number'',
               ''serial_number'', ''start_selector'', ''template_id'',
               ''calibration_date'', ''calibration_initals'', ''calibration_period'',
               ''measurement_location_id'', ''end_selector'', ''extended_end_selector'',
               ''user_data'']"
proof -
  let ?t = "int (uint_be (rev (take 8 (drop (p + 66) buf))))"
  have "p + 74 \<le> length buf" using room by simp
  from before_trailer_header [OF this, of fo] obtain h where
    bt0: "before_trailer fo \<lparr>bits = buf, pos = p\<rparr> False
            = load_template fo (Some ?t)
                \<lparr>teds = h, bitstream = \<lparr>bits = buf, pos = p + 74\<rparr>\<rparr>"
    and du: "decoded_upto fo buf p (p + 74)
            [''manufacturer_id'', ''model_number'', ''version_letter'', ''version_number'',
             ''serial_number'', ''start_selector'', ''template_id'']
            \<lparr>teds = h, bitstream = \<lparr>bits = buf, pos = p + 74\<rparr>\<rparr>"
    by blast
  have "?t \<noteq> 25" "?t \<noteq> 36" using t25 t36 by simp_all
  from load_template_other [OF this] bt0
  have bt: "before_trailer fo \<lparr>bits = buf, pos = p\<rparr> False
      = Inr \<lparr>teds = h, bitstream = \<lparr>bits = buf, pos = p + 74\<rparr>\<rparr>" by simp
  have "p + 74 + 57 \<le> length buf" using room by simp
  moreover have "set [''calibration_date'', ''calibration_initals'', ''calibration_period'',
               ''measurement_location_id'', ''end_selector'', ''extended_end_selector'',
               ''user_data'']
      \<inter> set [''manufacturer_id'', ''model_number'', ''version_letter'', ''version_number'',
             ''serial_number'', ''start_selector'', ''template_id''] = {}"
    by simp
  ultimately obtain st where
    e: "end_template fo \<lparr>teds = h, bitstream = \<lparr>bits = buf, pos = p + 74\<rparr>\<rparr> = Inr st"
    and b: "bitstream st = \<lparr>bits = buf, pos = length buf\<rparr>"
    and k: "map fst (teds st) =
        [''manufacturer_id'', ''model_number'', ''version_letter'', ''version_number'',
             ''serial_number'', ''start_selector'', ''template_id'']
        @ [''calibration_date'', ''calibration_initals'',
               ''calibration_period'', ''measurement_location_id'', ''end_selector'',
               ''extended_end_selector'', ''user_data'']"
    using end_template_decoded [OF du] by blast
  have "StandardTeds_init fo \<lparr>bits = buf, pos = p\<rparr> False = Inr st"
    using bt e by (simp add: init_split)
  with b k show ?thesis by simp
qed

text \<open>The sample streams.\<close>

lemma accel_basic_stream_hd:
  "accel_basic_stream buf p \<longleftrightarrow>
     p + 180 \<le> length buf
     \<and> uint_be (rev (take 8 (drop (p + 66) buf))) = 25
     \<and> \<not> hd (drop (p + 74) buf) \<and> \<not> hd (drop (p + 75) buf) \<and> \<not> hd (drop (p + 109) buf)"
  by (auto simp: accel_basic_stream_def hd_drop_conv_nth)



lemma sample_accel_stream: "accel_basic_stream sample_accel 0"
proof -
  have 1: "0 + 180 \<le> length sample_accel" by code_simp
  have 2: "uint_be (rev (take 8 (drop (0 + 66) sample_accel))) = 25" by code_simp
  have 3: "\<not> hd (drop (0 + 74) sample_accel)" by code_simp
  have 4: "\<not> hd (drop (0 + 75) sample_accel)" by code_simp
  have 5: "\<not> hd (drop (0 + 109) sample_accel)" by code_simp
  show ?thesis unfolding accel_basic_stream_hd by (intro conjI 1 2 3 4 5)
qed



lemma length_sample_accel [simp]: "length sample_accel = 180"
  by (simp add: sample_accel_def)

lemma length_sample_unknown [simp]: "length sample_unknown = 131"
  by (simp add: sample_unknown_def)

lemma sample_unknown_id: "uint_be (rev (take 8 (drop 66 sample_unknown))) = 99"
  by code_simp

lemma sample_accel_id: "uint_be (rev (take 14 sample_accel)) = 0"
  by code_simp

section \<open>The claims on the whole document\<close>

text \<open>
  Claim C1, as the code behaves. The claim says that a template id other than 25 and 36
  makes the decoding fail with no bits consumed beyond the header. The code does not fail:
  \<^verbatim>\<open>load_template\<close> matches the id against 25 and 36 only and has no default case, so
  for every stream of at least 131 bits whose template id is neither, the decoding
  succeeds; it reads the 57 bits of the trailer and whatever follows as user data, and
  returns a document that holds the header and the trailer and no template field.
\<close>
theorem C1_unknown_template_decodes:
  assumes "131 \<le> length bs"
    and "uint_be (rev (take 8 (drop 66 bs))) \<noteq> 25"
    and "uint_be (rev (take 8 (drop 66 bs))) \<noteq> 36"
  shows "\<exists>st. decode fo bs False = Inr st
          \<and> bitstream st = \<lparr>bits = bs, pos = length bs\<rparr>
          \<and> map fst (teds st) =
              [''manufacturer_id'', ''model_number'', ''version_letter'', ''version_number'',
               ''serial_number'', ''start_selector'', ''template_id'',
               ''calibration_date'', ''calibration_initals'', ''calibration_period'',
               ''measurement_location_id'', ''end_selector'', ''extended_end_selector'',
               ''user_data'']"
  using init_unknown [of 0 bs fo] assms by (simp add: decode_def)

theorem C1_unknown_template_decodes_witness:
  "131 \<le> length sample_unknown
   \<and> uint_be (rev (take 8 (drop 66 sample_unknown))) = 99
   \<and> (\<exists>st. decode exact_arith sample_unknown False = Inr st
          \<and> bitstream st = \<lparr>bits = sample_unknown, pos = length sample_unknown\<rparr>
          \<and> map fst (teds st) =
              [''manufacturer_id'', ''model_number'', ''version_letter'', ''version_number'',
               ''serial_number'', ''start_selector'', ''template_id'',
               ''calibration_date'', ''calibration_initals'', ''calibration_period'',
               ''measurement_location_id'', ''end_selector'', ''extended_end_selector'',
               ''user_data''])"
proof -
  have h1: "131 \<le> length sample_unknown" by simp
  have h2: "uint_be (rev (take 8 (drop 66 sample_unknown))) \<noteq> 25"
    and h3: "uint_be (rev (take 8 (drop 66 sample_unknown))) \<noteq> 36"
    by (simp_all add: sample_unknown_id)
  from C1_unknown_template_decodes [OF h1 h2 h3, of exact_arith] h1 sample_unknown_id
  show ?thesis by blast
qed

text \<open>
  Claim C5. With \<open>has_preamble = True\<close> and a buffer of at least 40 bits, the decoding
  fails with the preamble error (\<^verbatim>\<open>ValueError("Preamble does not match the default")\<close>)
  when the first 40 bits differ from \<open>0xDA6E0CCCBA\<close>; when they match it passes the
  check: it is the decoding without preamble of the buffer from bit 40 on, which never
  gives the preamble error. With \<open>has_preamble = False\<close> no comparison is made, the
  decoding never gives the preamble error, and the header is read from bit 0: the
  manufacturer id of a decoded document is the number held by the first 14 bits.
\<close>
theorem C5_preamble_check:
  "(40 \<le> length bs \<and> take 40 bs \<noteq> ni_preamble \<longrightarrow>
      decode fo bs True = Inl (ValueError ''Preamble does not match the default''))
   \<and> (40 \<le> length bs \<and> take 40 bs = ni_preamble \<longrightarrow>
      decode fo bs True = StandardTeds_init fo \<lparr>bits = bs, pos = 40\<rparr> False
      \<and> decode fo bs True \<noteq> Inl (ValueError ''Preamble does not match the default''))
   \<and> decode fo bs False \<noteq> Inl (ValueError ''Preamble does not match the default'')
   \<and> (74 \<le> length bs \<and> decode fo bs False = Inr st \<longrightarrow>
      getitem (teds st) ''manufacturer_id''
        = Inr (UnIntTedsElement 14 (Some (int (uint_be (rev (take 14 bs)))))))"
proof -
  have a: "decode fo bs True = Inl (ValueError ''Preamble does not match the default'')"
    if "40 \<le> length bs" "take 40 bs \<noteq> ni_preamble"
    using preamble_bad [OF that, of fo] by (simp add: decode_def)
  have b: "decode fo bs True = StandardTeds_init fo \<lparr>bits = bs, pos = 40\<rparr> False
      \<and> decode fo bs True \<noteq> Inl (ValueError ''Preamble does not match the default'')"
    if "40 \<le> length bs" "take 40 bs = ni_preamble"
    using preamble_ok [OF that, of fo] init_no_preamble_error [of fo "\<lparr>bits = bs, pos = 40\<rparr>"]
    by (simp add: decode_def)
  have c: "decode fo bs False \<noteq> Inl (ValueError ''Preamble does not match the default'')"
    using init_no_preamble_error [of fo "\<lparr>bits = bs, pos = 0\<rparr>"] by (simp add: decode_def)
  have d: "getitem (teds st) ''manufacturer_id''
        = Inr (UnIntTedsElement 14 (Some (int (uint_be (rev (take 14 bs))))))"
    if "74 \<le> length bs" "decode fo bs False = Inr st"
    using init_manufacturer_id [of 0 bs fo st] that by (simp add: decode_def)
  from a b c d show ?thesis by blast
qed

theorem C5_preamble_check_witness:
  "decode exact_arith (replicate 40 False) True
     = Inl (ValueError ''Preamble does not match the default'')
   \<and> decode exact_arith (ni_preamble @ sample_accel) True
       = StandardTeds_init exact_arith \<lparr>bits = ni_preamble @ sample_accel, pos = 40\<rparr> False
   \<and> (\<exists>st. decode exact_arith sample_accel False = Inr st
        \<and> getitem (teds st) ''manufacturer_id'' = Inr (UnIntTedsElement 14 (Some 0)))"
proof -
  have "uint_be ni_preamble = 0xDA6E0CCCBA" by (simp add: ni_preamble_def uint_be_bin_be)
  moreover have "uint_be (replicate 40 False) = 0"
    using uint_be_zeros_append [of 40 "[]"] by simp
  ultimately have "ni_preamble \<noteq> replicate 40 False" by auto
  then have h1: "40 \<le> length (replicate 40 False :: bool list)
      \<and> take 40 (replicate 40 False) \<noteq> ni_preamble" by auto
  have h2: "40 \<le> length (ni_preamble @ sample_accel)
      \<and> take 40 (ni_preamble @ sample_accel) = ni_preamble" by simp
  have sc: "scaled_reencode exact_arith sample_accel 0" by (rule scaled_reencode_exact) simp
  from accel_decode [OF sample_accel_stream sc] obtain st where
    st: "decode exact_arith sample_accel False = Inr st" by (auto simp: decode_def)
  have h3: "74 \<le> length sample_accel" by simp
  note t1 = C5_preamble_check [of "replicate 40 False" exact_arith]
  note t2 = C5_preamble_check [of "ni_preamble @ sample_accel" exact_arith]
  note t3 = C5_preamble_check [of sample_accel exact_arith st]
  from t3 h3 st have "getitem (teds st) ''manufacturer_id''
      = Inr (UnIntTedsElement 14 (Some (int (uint_be (rev (take 14 sample_accel))))))" by blast
  then have "getitem (teds st) ''manufacturer_id'' = Inr (UnIntTedsElement 14 (Some 0))"
    by (simp add: sample_accel_id)
  with t1 t2 h1 h2 st show ?thesis by blast
qed

text \<open>
  Claim C6, as stated, fails: the sample stream of the basic accelerometer template,
  decoded with \<open>has_preamble = False\<close>, is written back with the preamble in front.
\<close>
theorem C6_counterexample:
  "decode_encode exact_arith sample_accel False = Inr (file_bytes (ni_preamble @ sample_accel))
   \<and> take 40 (file_bytes (ni_preamble @ sample_accel)) = file_bytes ni_preamble
   \<and> file_bytes (ni_preamble @ sample_accel) \<noteq> file_bytes sample_accel"
proof -
  have "scaled_reencode exact_arith sample_accel 0" by (rule scaled_reencode_exact) simp
  from roundtrip_no_preamble [OF sample_accel_stream this]
  have "decode_encode exact_arith sample_accel False
      = Inr (file_bytes (ni_preamble @ sample_accel))" by simp
  moreover have "take 40 (file_bytes (ni_preamble @ sample_accel)) = file_bytes ni_preamble"
    by (simp add: take_file_bytes)
  moreover have "length (file_bytes (ni_preamble @ sample_accel)) \<noteq> length (file_bytes sample_accel)"
    by simp
  then have "file_bytes (ni_preamble @ sample_accel) \<noteq> file_bytes sample_accel" by metis
  ultimately show ?thesis by blast
qed

text \<open>
  Claim C6, amended. The encoder always writes the 40-bit preamble first, whether or not
  the document was decoded with one: a document does not record \<open>has_preamble\<close>, and
  every output of \<^verbatim>\<open>write_to_file\<close> starts with the preamble.
\<close>
theorem C6_preamble_always_written:
  assumes "write_to_file fo self = Inr out"
  shows "take 40 out = file_bytes ni_preamble"
proof -
  from assms obtain bits' where w: "write_loop fo (teds self) ni_preamble = Inr bits'"
    and out: "out = file_bytes bits'"
    by (auto simp: write_to_file_def write_teds_to_file_def bindE_Inr)
  from write_loop_prefix [OF w] have "take 40 bits' = ni_preamble" by simp
  with out show ?thesis by (simp add: take_file_bytes)
qed

theorem C6_preamble_always_written_witness:
  "\<exists>st out. decode exact_arith sample_accel False = Inr st
      \<and> write_to_file exact_arith st = Inr out
      \<and> take 40 out = file_bytes ni_preamble"
proof -
  have "scaled_reencode exact_arith sample_accel 0" by (rule scaled_reencode_exact) simp
  from accel_decode [OF sample_accel_stream this] obtain st where
    d: "decode exact_arith sample_accel False = Inr st"
    and w: "\<forall>out. write_loop exact_arith (teds st) out
              = Inr (out @ take (180 + 7 * ((length sample_accel - (0 + 180)) div 7))
                             (drop 0 sample_accel))"
    unfolding decode_def by blast
  from w have "write_loop exact_arith (teds st) ni_preamble = Inr (ni_preamble @ sample_accel)"
    by simp
  then have h: "write_to_file exact_arith st = Inr (file_bytes (ni_preamble @ sample_accel))"
    by (simp add: write_to_file_def write_teds_to_file_def)
  from C6_preamble_always_written [OF h] d h show ?thesis by blast
qed

text \<open>
  Claim C8. For every stream of template 25 whose selector \<open>acceleration_force\<close> (bit 74
  of the document) is 1, whatever the selector \<open>extended_functionality\<close>, the decoding
  fails with \<^verbatim>\<open>NotImplementedError\<close>, and the result is the error alone, with no
  document. The two selectors are read before the branch, so the stream holds them both.
  The same holds behind a preamble.
\<close>
theorem C8_force_branch_unsupported:
  "(76 \<le> length bs \<and> uint_be (rev (take 8 (drop 66 bs))) = 25 \<and> bs ! 74 \<longrightarrow>
      decode fo bs False = Inl NotImplementedError)
   \<and> (116 \<le> length bs \<and> take 40 bs = ni_preamble
       \<and> uint_be (rev (take 8 (drop 106 bs))) = 25 \<and> bs ! 114 \<longrightarrow>
      decode fo bs True = Inl NotImplementedError)"
proof -
  have a: "decode fo bs False = Inl NotImplementedError"
    if "76 \<le> length bs" "uint_be (rev (take 8 (drop 66 bs))) = 25" "bs ! 74"
    using init_force [of 0 bs fo] that by (simp add: decode_def)
  have b: "decode fo bs True = Inl NotImplementedError"
    if h: "116 \<le> length bs" "take 40 bs = ni_preamble"
      "uint_be (rev (take 8 (drop 106 bs))) = 25" "bs ! 114"
  proof -
    from h(1) have "40 \<le> length bs" by simp
    from preamble_ok [OF this h(2), of fo] init_force [of 40 bs fo] h show ?thesis
      by (simp add: decode_def)
  qed
  from a b show ?thesis by blast
qed

theorem C8_force_branch_unsupported_witness:
  "decode exact_arith (take 74 sample_accel @ [True, False]) False = Inl NotImplementedError
   \<and> decode exact_arith (take 74 sample_accel @ [True, True]) False = Inl NotImplementedError
   \<and> decode exact_arith (ni_preamble @ take 74 sample_accel @ [True, True]) True
       = Inl NotImplementedError"
proof -
  let ?a = "take 74 sample_accel @ [True, False]"
  let ?b = "take 74 sample_accel @ [True, True]"
  let ?c = "ni_preamble @ take 74 sample_accel @ [True, True]"
  have la: "76 \<le> length ?a" and lb: "76 \<le> length ?b" and lc: "116 \<le> length ?c"
    by simp_all
  have ia: "uint_be (rev (take 8 (drop 66 ?a))) = 25" by code_simp
  have ib: "uint_be (rev (take 8 (drop 66 ?b))) = 25" by code_simp
  have "drop 106 ?c = drop 66 ?b" by simp
  with ib have ic: "uint_be (rev (take 8 (drop 106 ?c))) = 25" by (simp only:)
  have ba: "?a ! 74" and bb: "?b ! 74" by (simp_all add: nth_append)
  have bc: "?c ! 114" by (simp add: nth_append)
  have pc: "take 40 ?c = ni_preamble" by simp
  note ta = C8_force_branch_unsupported [of ?a exact_arith]
  note tb = C8_force_branch_unsupported [of ?b exact_arith]
  note tc = C8_force_branch_unsupported [of ?c exact_arith]
  from ta la ia ba have 1: "decode exact_arith ?a False = Inl NotImplementedError" by blast
  from tb lb ib bb have 2: "decode exact_arith ?b False = Inl NotImplementedError" by blast
  from tc lc pc ic bc have 3: "decode exact_arith ?c True = Inl NotImplementedError" by blast
  from 1 2 3 show ?thesis by blast
qed

text \<open>
  Claim C9. When the constructor has reached the trailer and exactly the 57 bits of the
  trailer's fixed-width fields are left in the buffer, the decoding succeeds and the user
  data of the document is the empty string; the seven-bit string decoded from no bits is
  the empty string.
\<close>
theorem C9_empty_user_data:
  assumes "before_trailer fo s hp = Inr st"
    and "pos (bitstream st) + 57 = length (bits (bitstream st))"
  shows "(\<exists>st'. StandardTeds_init fo s hp = Inr st'
            \<and> getitem (teds st') ''user_data'' = Inr (AsciiTedsElement (-1) (Some [])))
         \<and> from_bits fo (AsciiTedsElement (-1) (Some [])) []
             = Inr (AsciiTedsElement (-1) (Some []))"
proof -
  from assms(2) have "pos (bitstream st) + 57 \<le> length (bits (bitstream st))" by simp
  from end_template_ok [OF this, of fo] assms(2) obtain st' where
    "end_template fo st = Inr st'"
    "getitem (teds st') ''user_data''
       = Inr (AsciiTedsElement (-1) (Some (Ascii_from_bits [])))"
    by auto
  with assms(1) show ?thesis by (auto simp: init_split Ascii_from_bits_def)
qed

theorem C9_empty_user_data_witness:
  "\<exists>st. before_trailer exact_arith \<lparr>bits = sample_accel, pos = 0\<rparr> False = Inr st
      \<and> pos (bitstream st) + 57 = length (bits (bitstream st))
      \<and> (\<exists>st'. StandardTeds_init exact_arith \<lparr>bits = sample_accel, pos = 0\<rparr> False = Inr st'
            \<and> getitem (teds st') ''user_data'' = Inr (AsciiTedsElement (-1) (Some [])))"
proof -
  have "scaled_reencode exact_arith sample_accel 0" by (rule scaled_reencode_exact) simp
  from before_trailer_accel [OF sample_accel_stream this] obtain st where
    bt: "before_trailer exact_arith \<lparr>bits = sample_accel, pos = 0\<rparr> False = Inr st"
    and "bitstream st = \<lparr>bits = sample_accel, pos = 0 + 123\<rparr>"
    by (auto simp: decoded_upto_def)
  then have l: "pos (bitstream st) + 57 = length (bits (bitstream st))" by simp
  from C9_empty_user_data [OF bt l] bt l show ?thesis by blast
qed




section \<open>The claims on single fields\<close>

text \<open>
  Claim C10. For a remainder bit sequence of any length, the seven-bit string decode never
  fails and decodes the complete seven-bit groups, one character per group: the string has
  exactly \<open>length div 7\<close> characters, and encoding it gives back the bits of the complete
  groups, so every character is the one whose code its group holds. A trailing group of
  fewer than seven bits is discarded: decoding the sequence cut after its last complete
  group gives the same string. For instance the 17 bits \<open>0001001 1001011 101\<close> decode to
  the two characters \<open>Hi\<close>.
\<close>
theorem C10_ascii_complete_groups:
  "from_bits fo (AsciiTedsElement l v) bs = Inr (AsciiTedsElement l (Some (Ascii_from_bits bs)))
   \<and> length (Ascii_from_bits bs) = length bs div 7
   \<and> Ascii_to_bits (Ascii_from_bits bs) = take (7 * (length bs div 7)) bs
   \<and> Ascii_from_bits bs = Ascii_from_bits (take (7 * (length bs div 7)) bs)
   \<and> Ascii_from_bits
         [False, False, False, True, False, False, True,
          True, False, False, True, False, True, True,
          True, False, True] = ''Hi''"
proof -
  from Ascii_from_bits_total [of bs] have
    len: "length (Ascii_from_bits bs) = length bs div 7"
    and ok: "\<forall>c\<in>set (Ascii_from_bits bs). (of_char c :: nat) < 128"
    and enc: "Ascii_to_bits (Ascii_from_bits bs) = take (7 * (length bs div 7)) bs"
    by simp_all
  from Ascii_from_bits_to_bits [OF ok] enc
  have "Ascii_from_bits (take (7 * (length bs div 7)) bs) = Ascii_from_bits bs" by simp
  moreover have "Ascii_from_bits
         [False, False, False, True, False, False, True,
          True, False, False, True, False, True, True,
          True, False, True] = ''Hi''"
    by code_simp
  ultimately show ?thesis using len enc by simp
qed

text \<open>
  Claim C7. For every width \<open>l > 0\<close> and every raw value \<open>v\<close> with \<open>0 \<le> v < 2 ^ l\<close>,
  encoding \<open>v\<close> as an unsigned integer of width \<open>l\<close> gives \<open>l\<close> bits that decode to
  \<open>v\<close> again; the value 5 in a four-bit field encodes to \<open>1010\<close> and decodes back to 5.
  The same holds for a date of the 16-bit field (a whole number of days from 1998-01-01 below
  \<open>2 ^ 16\<close>), for a string of five-bit characters (codes 96 to 127) and for a string of
  seven-bit characters (codes below 128). A bit string of width 0 cannot be built from an
  unsigned integer, so the width is positive. None of the four kinds computes in floats: the
  statement holds whatever the float arithmetic.
\<close>
theorem C7_roundtrip:
  "(0 < l \<and> 0 \<le> v \<and> v < 2 ^ nat l \<longrightarrow>
      (\<exists>b. to_bits fo (UnIntTedsElement l (Some v)) = Inr b \<and> length b = nat l
          \<and> from_bits fo (UnIntTedsElement l x) b = Inr (UnIntTedsElement l (Some v))))
   \<and> to_bits fo (UnIntTedsElement 4 (Some 5)) = Inr [True, False, True, False]
   \<and> from_bits fo (UnIntTedsElement 4 None) [True, False, True, False]
       = Inr (UnIntTedsElement 4 (Some 5))
   \<and> (0 \<le> k \<and> k < 2 ^ 16 \<longrightarrow>
      (\<exists>b. to_bits fo (DateTedsElement 16 (Some (Datetime (729390 + k) 0))) = Inr b
          \<and> length b = 16
          \<and> from_bits fo (DateTedsElement 16 y) b
              = Inr (DateTedsElement 16 (Some (Datetime (729390 + k) 0)))))
   \<and> ((\<forall>c\<in>set s. 96 \<le> (of_char c :: nat) \<and> (of_char c :: nat) < 128) \<longrightarrow>
      (\<exists>b. to_bits fo (Chr5TedsElement l5 (Some s)) = Inr b \<and> length b = 5 * length s
          \<and> from_bits fo (Chr5TedsElement l5 z) b = Inr (Chr5TedsElement l5 (Some s))))
   \<and> ((\<forall>c\<in>set t. (of_char c :: nat) < 128) \<longrightarrow>
      (\<exists>b. to_bits fo (AsciiTedsElement l7 (Some t)) = Inr b \<and> length b = 7 * length t
          \<and> from_bits fo (AsciiTedsElement l7 w) b = Inr (AsciiTedsElement l7 (Some t))))"
proof -
  have uint: "\<exists>b. to_bits fo (UnIntTedsElement l (Some v)) = Inr b \<and> length b = nat l
          \<and> from_bits fo (UnIntTedsElement l x) b = Inr (UnIntTedsElement l (Some v))"
    if h: "0 < l" "0 \<le> v" "v < 2 ^ nat l"
  proof -
    from h have "nat v < 2 ^ nat l" by (simp add: nat_less_iff)
    from from_bits_UnInt_rev [OF this, of fo l x] h(2)
    have "from_bits fo (UnIntTedsElement l x) (rev (bin_be (nat l) (nat v)))
            = Inr (UnIntTedsElement l (Some v))" by simp
    with h show ?thesis by (simp add: to_bitstream_int)
  qed
  have ex1: "to_bits fo (UnIntTedsElement 4 (Some 5)) = Inr [True, False, True, False]"
    by (simp add: to_bitstream_int bin_be_4_5)
  have ex2: "from_bits fo (UnIntTedsElement 4 None) [True, False, True, False]
       = Inr (UnIntTedsElement 4 (Some 5))"
    using from_bits_UnInt_rev [of 5 4 fo 4 None] by (simp add: bin_be_4_5)
  have date: "\<exists>b. to_bits fo (DateTedsElement 16 (Some (Datetime (729390 + k) 0))) = Inr b
          \<and> length b = 16
          \<and> from_bits fo (DateTedsElement 16 y) b
              = Inr (DateTedsElement 16 (Some (Datetime (729390 + k) 0)))"
    if h: "0 \<le> k" "k < 2 ^ 16"
  proof -
    from h have lt: "nat k < 2 ^ 16" by (simp add: nat_less_iff)
    have enc: "to_bits fo (DateTedsElement 16 (Some (Datetime (729390 + k) 0)))
               = Inr (rev (bin_be 16 (nat k)))"
      using h by (simp add: timedelta_days_def epoch_def to_bitstream_int)
    have "uint_be (bin_be 16 (nat k)) = nat k" using lt by (simp add: uint_be_bin_be)
    then have "from_bits fo (DateTedsElement 16 y) (rev (bin_be 16 (nat k)))
              = Inr (DateTedsElement 16 (Some (Datetime (729390 + k) 0)))"
      using h by (simp add: datetime_add_days_def epoch_def)
    with enc show ?thesis by simp
  qed
  have chr5: "\<exists>b. to_bits fo (Chr5TedsElement l5 (Some s)) = Inr b \<and> length b = 5 * length s
          \<and> from_bits fo (Chr5TedsElement l5 z) b = Inr (Chr5TedsElement l5 (Some s))"
    if h: "\<forall>c\<in>set s. 96 \<le> (of_char c :: nat) \<and> (of_char c :: nat) < 128"
    using Chr5_from_bits_to_bits [OF h] by simp
  have ascii: "\<exists>b. to_bits fo (AsciiTedsElement l7 (Some t)) = Inr b \<and> length b = 7 * length t
          \<and> from_bits fo (AsciiTedsElement l7 w) b = Inr (AsciiTedsElement l7 (Some t))"
    if h: "\<forall>c\<in>set t. (of_char c :: nat) < 128"
    using Ascii_from_bits_to_bits [OF h] length_Ascii_to_bits [OF h] by simp
  from uint ex1 ex2 date chr5 ascii show ?thesis by blast
qed

theorem C7_roundtrip_witness:
  "(0 < (12::int) \<and> (0::int) \<le> 2748 \<and> (2748::int) < 2 ^ nat 12)
   \<and> (\<exists>b. to_bits exact_arith (UnIntTedsElement 12 (Some 2748)) = Inr b \<and> length b = nat 12
          \<and> from_bits exact_arith (UnIntTedsElement 12 None) b
              = Inr (UnIntTedsElement 12 (Some 2748)))
   \<and> ((0::int) \<le> 10000 \<and> (10000::int) < 2 ^ 16)
   \<and> (\<exists>b. to_bits exact_arith (DateTedsElement 16 (Some (Datetime (729390 + 10000) 0))) = Inr b
          \<and> length b = 16
          \<and> from_bits exact_arith (DateTedsElement 16 None) b
              = Inr (DateTedsElement 16 (Some (Datetime (729390 + 10000) 0))))
   \<and> (\<exists>b. to_bits exact_arith (Chr5TedsElement 15 (Some ''abc'')) = Inr b
          \<and> length b = 5 * length ''abc''
          \<and> from_bits exact_arith (Chr5TedsElement 15 (Some [])) b
              = Inr (Chr5TedsElement 15 (Some ''abc'')))
   \<and> (\<exists>b. to_bits exact_arith (AsciiTedsElement (-1) (Some ''Hi'')) = Inr b
          \<and> length b = 7 * length ''Hi''
          \<and> from_bits exact_arith (AsciiTedsElement (-1) (Some [])) b
              = Inr (AsciiTedsElement (-1) (Some ''Hi'')))"
proof -
  have h1: "0 < (12::int) \<and> (0::int) \<le> 2748 \<and> (2748::int) < 2 ^ nat 12" by simp
  have h2: "(0::int) \<le> 10000 \<and> (10000::int) < 2 ^ 16" by simp
  have h3: "\<forall>c\<in>set ''abc''. 96 \<le> (of_char c :: nat) \<and> (of_char c :: nat) < 128" by simp
  have h4: "\<forall>c\<in>set ''Hi''. (of_char c :: nat) < 128" by simp
  note t = C7_roundtrip [where l = 12 and v = 2748 and x = None and k = 10000 and y = None
      and s = "''abc''" and ?l5.0 = 15 and z = "Some []" and t = "''Hi''" and ?l7.0 = "-1"
      and w = "Some []" and fo = exact_arith]
  from t h1 h2 h3 h4 show ?thesis by blast
qed




text \<open>
  Claim C3, as the code behaves. The claim says that the encoder rounds the quotient to the
  nearest integer. The code passes the float quotient to the bit-string library as it is,
  and the library truncates it toward zero: for a linear field with start 15 and step 0.5
  the value 15.375 has the quotient 0.75, which rounds to the code 1 and is written as the
  code 0, the same five bits as the value 15 and not the bits of 15.5. All the numbers of
  the example are binary fractions, on which binary64 arithmetic is exact.
\<close>
theorem C3_encode_truncates:
  "to_bits fo (ConResTedsElement l start step (Some v))
     = (if step = 0 then Inl ZeroDivisionError
        else to_bitstream l (PyInt (py_int (PyFloat (fdiv fo (fsub fo v start) step)))))
   \<and> to_bits fo (ConRelResTedsElement l start step (Some v))
     = (if start = 0 then Inl ZeroDivisionError
        else if fdiv fo v start \<le> 0 then Inl (ValueError ''math domain error'')
        else if fadd fo 1 (fmul fo 2 step) \<le> 0 then Inl (ValueError ''math domain error'')
        else if flog fo (fadd fo 1 (fmul fo 2 step)) = 0 then Inl ZeroDivisionError
        else to_bitstream l (PyInt (py_int (PyFloat
               (fdiv fo (flog fo (fdiv fo v start)) (flog fo (fadd fo 1 (fmul fo 2 step))))))))
   \<and> py_int (PyFloat (3/4)) = 0
   \<and> round (3/4 :: real) = 1
   \<and> to_bits exact_arith (ConResTedsElement 5 15 (1/2) (Some (123/8)))
       = Inr [False, False, False, False, False]
   \<and> to_bits exact_arith (ConResTedsElement 5 15 (1/2) (Some 15))
       = Inr [False, False, False, False, False]
   \<and> to_bits exact_arith (ConResTedsElement 5 15 (1/2) (Some (31/2)))
       = Inr [True, False, False, False, False]"
proof -
  have tr: "to_bitstream l (PyFloat q) = to_bitstream l (PyInt (py_int (PyFloat q)))" for l q
    by (simp add: to_bitstream_def Bits_uint_def)
  have a: "to_bits fo (ConResTedsElement l start step (Some v))
     = (if step = 0 then Inl ZeroDivisionError
        else to_bitstream l (PyInt (py_int (PyFloat (fdiv fo (fsub fo v start) step)))))"
    using tr [of l "fdiv fo (fsub fo v start) step"] by (simp del: py_int.simps)
  have b: "to_bits fo (ConRelResTedsElement l start step (Some v))
     = (if start = 0 then Inl ZeroDivisionError
        else if fdiv fo v start \<le> 0 then Inl (ValueError ''math domain error'')
        else if fadd fo 1 (fmul fo 2 step) \<le> 0 then Inl (ValueError ''math domain error'')
        else if flog fo (fadd fo 1 (fmul fo 2 step)) = 0 then Inl ZeroDivisionError
        else to_bitstream l (PyInt (py_int (PyFloat
               (fdiv fo (flog fo (fdiv fo v start)) (flog fo (fadd fo 1 (fmul fo 2 step))))))))"
    using tr [of l "fdiv fo (flog fo (fdiv fo v start)) (flog fo (fadd fo 1 (fmul fo 2 step)))"]
    by (simp del: py_int.simps)
  have c: "py_int (PyFloat (3/4)) = 0" by simp
  have d: "round (3/4 :: real) = 1" by (simp add: round_def)
  have z: "bin_be 5 0 = [False, False, False, False, False]" by code_simp
  have o: "bin_be 5 1 = [False, False, False, False, True]" by code_simp
  have e: "to_bits exact_arith (ConResTedsElement 5 15 (1/2) (Some (123/8)))
       = Inr [False, False, False, False, False]"
    using tr [of 5 "3/4"] z by (simp add: exact_arith_def to_bitstream_int)
  have f: "to_bits exact_arith (ConResTedsElement 5 15 (1/2) (Some 15))
       = Inr [False, False, False, False, False]"
    using tr [of 5 0] z by (simp add: exact_arith_def to_bitstream_int)
  have g: "to_bits exact_arith (ConResTedsElement 5 15 (1/2) (Some (31/2)))
       = Inr [True, False, False, False, False]"
    using tr [of 5 1] o by (simp add: exact_arith_def to_bitstream_int)
  from a b c d e f g show ?thesis by (intro conjI)
qed

end
